theory Spec2Isabelle
  imports Main
begin

section \<open>Data model (lib/types)\<close>

text \<open>
  The types are those of \<open>src/.storage/113/184ca4f6/types.ts\<close>, the version of lib/types
  with the seven status values; \<open>src/unnamed/part_003\<close> is an earlier version of the same
  file (four status values, a \<open>deliveryMethod\<close> field in place of \<open>deliveryMethodId\<close>, no
  payment fields). The TypeScript interfaces become records and the string-literal
  unions become datatypes. Every record field carries a prefix (\<open>p_\<close>, \<open>c_\<close>, \<open>t_\<close>,
  \<open>u_\<close>) because several interfaces share the field names \<open>id\<close>, \<open>name\<close>, \<open>createdAt\<close>
  and \<open>updatedAt\<close>. JavaScript numbers are modelled as \<open>int\<close>: stock and quantities are
  whole numbers in the program (\<open>parseInt\<close> on import, integer form inputs). Optional
  fields (\<open>email?\<close>, \<open>notes?\<close>, ...) are \<open>option\<close>s.
\<close>

datatype UserRole = Admin | RoleUser

datatype UserType = Regular | Vip

record User =
  u_id :: string
  u_username :: string
  u_password :: string
  u_role :: UserRole
  u_type :: UserType
  u_name :: string
  u_email :: "string option"
  u_phone :: "string option"
  u_address :: "string option"
  u_csCode :: "string option"
  u_createdAt :: string

record ProductCategory =
  c_id :: string
  c_name :: string
  c_description :: "string option"
  c_createdAt :: string
  c_updatedAt :: string

text \<open>\<open>p_vipPrice\<close> is the optional \<open>vipPrice\<close> that the product table (part_010, line 181)
  and the cart drawer (\<open>src/.storage/136/292b9bb3/cart-drawer.tsx\<close>, line 203) read; the
  versions of types.ts under src/ do not declare it yet.\<close>

record Product =
  p_id :: string
  p_code :: string
  p_name :: string
  p_categoryId :: string
  p_price :: int
  p_vipPrice :: "int option"
  p_stock :: int
  p_createdAt :: string
  p_updatedAt :: string

datatype TransactionType = TIn | TOut

record TransactionItem =
  productId :: string
  quantity :: int
  priceAtTransaction :: int

datatype TransactionStatus =
  Pending | PaymentConfirmed | Processing | ReadyForPickup | Shipping | Completed | Cancelled

record Transaction =
  t_id :: string
  t_type :: TransactionType
  t_items :: "TransactionItem list"
  t_totalAmount :: int
  t_userId :: string
  t_status :: TransactionStatus
  t_notes :: "string option"
  t_deliveryMethodId :: "string option"
  t_deliveryAddress :: "string option"
  t_paymentMethodId :: "string option"
  t_paymentProof :: "string option"
  t_createdAt :: string
  t_updatedAt :: string

section \<open>The store (lib/storage, src/unnamed/part_006)\<close>

text \<open>
  The functions below are identical in \<open>src/unnamed/part_006\<close> and in the later version
  of the module at \<open>src/.storage/13/44ed987f/transaction-form.tsx\<close> (from line 254), which
  adds \<open>canProcessTransaction\<close>.
  \<open>localStorage\<close> holds one JSON array per key; \<open>getFromStorage\<close> returns \<open>[]\<close> for a
  missing key, so each collection is a list. Every storage function reads the
  collections it needs, changes its copy and writes it back: the model passes the store
  explicitly and returns the updated one next to the function's result. \<open>new
  Date().toISOString()\<close> is the parameter \<open>now\<close>.
\<close>

record storage =
  users :: "User list"
  categories :: "ProductCategory list"
  products :: "Product list"
  transactions :: "Transaction list"

text \<open>\<open>Array.prototype.findIndex\<close>: the first index whose element satisfies the predicate;
  JavaScript's \<open>-1\<close> is \<open>None\<close>.\<close>

fun findIndex :: "('a \<Rightarrow> bool) \<Rightarrow> 'a list \<Rightarrow> nat option" where
  "findIndex P [] = None"
| "findIndex P (x # xs) = (if P x then Some 0 else map_option Suc (findIndex P xs))"

subsection \<open>Categories and products\<close>

definition deleteCategory :: "string \<Rightarrow> storage \<Rightarrow> bool \<times> storage" where
  "deleteCategory categoryId st =
     (let categoryUsed = list_ex (\<lambda>p. p_categoryId p = categoryId) (products st) in
      if categoryUsed then (False, st)
      else
        let filteredCategories = filter (\<lambda>c. c_id c \<noteq> categoryId) (categories st) in
        if length filteredCategories \<noteq> length (categories st)
        then (True, st\<lparr>categories := filteredCategories\<rparr>)
        else (False, st))"

definition updateProduct :: "Product \<Rightarrow> storage \<Rightarrow> bool \<times> storage" where
  "updateProduct updatedProduct st =
     (case findIndex (\<lambda>p. p_id p = p_id updatedProduct) (products st) of
        Some index \<Rightarrow> (True, st\<lparr>products := (products st)[index := updatedProduct]\<rparr>)
      | None \<Rightarrow> (False, st))"

definition deleteProduct :: "string \<Rightarrow> storage \<Rightarrow> bool \<times> storage" where
  "deleteProduct productId' st =
     (let filteredProducts = filter (\<lambda>p. p_id p \<noteq> productId') (products st) in
      if length filteredProducts \<noteq> length (products st)
      then (True, st\<lparr>products := filteredProducts\<rparr>)
      else (False, st))"

subsection \<open>The stock ledger\<close>

text \<open>The index of the product an item refers to: \<open>products.findIndex(p => p.id ===
  item.productId)\<close>.\<close>

definition itemIndex :: "Product list \<Rightarrow> TransactionItem \<Rightarrow> nat option" where
  "itemIndex ps item = findIndex (\<lambda>p. p_id p = productId item) ps"

text \<open>The body of the \<open>forEach\<close> of \<open>updateStockFromTransaction\<close> (part_006, lines
  272-284) for one item: an item whose product is not found changes nothing.\<close>

definition applyItem :: "TransactionType \<Rightarrow> string \<Rightarrow> Product list \<Rightarrow> TransactionItem \<Rightarrow> Product list" where
  "applyItem ty now ps item =
     (case itemIndex ps item of
        None \<Rightarrow> ps
      | Some productIndex \<Rightarrow>
          let p = ps ! productIndex;
              p1 = (case ty of
                      TIn \<Rightarrow> p\<lparr>p_stock := p_stock p + quantity item\<rparr>
                    | TOut \<Rightarrow>
                        (let p' = p\<lparr>p_stock := p_stock p - quantity item\<rparr> in
                         if p_stock p' < 0 then p'\<lparr>p_stock := 0\<rparr> else p'))
          in ps[productIndex := p1\<lparr>p_updatedAt := now\<rparr>])"

definition updateStockFromTransaction :: "string \<Rightarrow> Transaction \<Rightarrow> storage \<Rightarrow> storage" where
  "updateStockFromTransaction now transaction st =
     (if t_status transaction \<noteq> Completed then st
      else st\<lparr>products := foldl (applyItem (t_type transaction) now) (products st) (t_items transaction)\<rparr>)"

text \<open>The body of the \<open>forEach\<close> of \<open>reverseTransactionStockEffects\<close> (part_006, lines
  317-329).\<close>

definition reverseItem :: "TransactionType \<Rightarrow> string \<Rightarrow> Product list \<Rightarrow> TransactionItem \<Rightarrow> Product list" where
  "reverseItem ty now ps item =
     (case itemIndex ps item of
        None \<Rightarrow> ps
      | Some productIndex \<Rightarrow>
          let p = ps ! productIndex;
              p1 = (case ty of
                      TIn \<Rightarrow>
                        (let p' = p\<lparr>p_stock := p_stock p - quantity item\<rparr> in
                         if p_stock p' < 0 then p'\<lparr>p_stock := 0\<rparr> else p')
                    | TOut \<Rightarrow> p\<lparr>p_stock := p_stock p + quantity item\<rparr>)
          in ps[productIndex := p1\<lparr>p_updatedAt := now\<rparr>])"

definition reverseTransactionStockEffects :: "string \<Rightarrow> Transaction \<Rightarrow> storage \<Rightarrow> storage" where
  "reverseTransactionStockEffects now transaction st =
     (if t_status transaction \<noteq> Completed then st
      else st\<lparr>products := foldl (reverseItem (t_type transaction) now) (products st) (t_items transaction)\<rparr>)"

subsection \<open>Transactions\<close>

definition addTransaction :: "string \<Rightarrow> Transaction \<Rightarrow> storage \<Rightarrow> storage" where
  "addTransaction now transaction st =
     (let st1 = st\<lparr>transactions := transactions st @ [transaction]\<rparr> in
      if t_status transaction = Completed then updateStockFromTransaction now transaction st1
      else st1)"

definition updateTransaction :: "string \<Rightarrow> Transaction \<Rightarrow> storage \<Rightarrow> bool \<times> storage" where
  "updateTransaction now updatedTransaction st =
     (case findIndex (\<lambda>t. t_id t = t_id updatedTransaction) (transactions st) of
        Some index \<Rightarrow>
          let oldTransaction = transactions st ! index;
              st1 = (if t_status oldTransaction \<noteq> Completed \<and> t_status updatedTransaction = Completed
                     then updateStockFromTransaction now updatedTransaction st
                     else if t_status oldTransaction = Completed \<and> t_status updatedTransaction \<noteq> Completed
                     then reverseTransactionStockEffects now oldTransaction st
                     else st)
          in (True, st1\<lparr>transactions := (transactions st)[index := updatedTransaction]\<rparr>)
      | None \<Rightarrow> (False, st))"

definition updateTransactionStatus :: "string \<Rightarrow> string \<Rightarrow> TransactionStatus \<Rightarrow> storage \<Rightarrow> bool \<times> storage" where
  "updateTransactionStatus now transactionId status st =
     (case findIndex (\<lambda>t. t_id t = transactionId) (transactions st) of
        Some index \<Rightarrow>
          updateTransaction now ((transactions st ! index)\<lparr>t_status := status, t_updatedAt := now\<rparr>) st
      | None \<Rightarrow> (False, st))"

section \<open>Pricing\<close>

text \<open>
  Modelled from the spec: \<open>getPriceForUser\<close> is imported from lib/storage by the product
  table (part_010, line 21) and called as \<open>getPriceForUser(product, userType)\<close> (line 180),
  but no version of the storage module under src/ defines it. Section 4.3 of the
  specification:
  it "returns \<open>product.vipPrice\<close> if \<open>userTier == vip\<close> and \<open>vipPrice\<close> is set, else
  \<open>product.price\<close>".
\<close>

definition getPriceForUser :: "Product \<Rightarrow> UserType \<Rightarrow> int" where
  "getPriceForUser product userType =
     (case p_vipPrice product of
        Some vip \<Rightarrow> if userType = Vip then vip else p_price product
      | None \<Rightarrow> p_price product)"

section \<open>The sufficiency check and the transaction form\<close>

text \<open>
  \<open>canProcessTransaction\<close> (lib/storage, at
  \<open>src/.storage/13/44ed987f/transaction-form.tsx\<close>, lines 879-891). For an \<open>out\<close>
  transaction the \<open>for\<close> loop returns \<open>false\<close> at the first item whose product is not
  found (\<open>!product\<close>) or holds less than the quantity; otherwise, and for every other
  transaction, the result is \<open>true\<close>. The function reads the products with
  \<open>getProducts()\<close> and writes nothing, so the model takes the store and returns the
  result only.
\<close>

fun canProcessItems :: "Product list \<Rightarrow> TransactionItem list \<Rightarrow> bool" where
  "canProcessItems ps [] = True"
| "canProcessItems ps (item # items) =
     (case find (\<lambda>p. p_id p = productId item) ps of
        None \<Rightarrow> False
      | Some product \<Rightarrow>
          if p_stock product < quantity item then False else canProcessItems ps items)"

definition canProcessTransaction :: "Transaction \<Rightarrow> storage \<Rightarrow> bool" where
  "canProcessTransaction transaction st =
     (if t_type transaction = TOut then canProcessItems (products st) (t_items transaction)
      else True)"

text \<open>
  The transaction form (\<open>src/.storage/135/34e43a46/transaction-form.tsx\<close>). \<open>FormValues\<close>
  is what the form's schema (lines 20-33) yields. The component's property \<open>type\<close>, its
  state \<open>products\<close> (loaded when the form opens) and \<open>deliveryCost\<close>, the current user
  (\<open>getCurrentUser()\<close>), the id from \<open>generateId()\<close> and the time are parameters of the
  model. \<open>product?.price || 0\<close> is the price of the product found and \<open>0\<close> when none is
  found.
\<close>

record FormItem =
  fi_productId :: string
  fi_quantity :: int

record FormValues =
  fv_notes :: "string option"
  fv_deliveryMethodId :: "string option"
  fv_deliveryAddress :: "string option"
  fv_paymentMethodId :: "string option"
  fv_paymentProof :: "string option"
  fv_items :: "FormItem list"

definition priceOrZero :: "Product list \<Rightarrow> string \<Rightarrow> int" where
  "priceOrZero formProducts productId' =
     (case find (\<lambda>p. p_id p = productId') formProducts of
        Some product \<Rightarrow> p_price product
      | None \<Rightarrow> 0)"

text \<open>\<open>calculateTotal\<close> (lines 93-98): the \<open>reduce\<close> over the items, from \<open>0\<close>.\<close>

definition calculateTotal :: "Product list \<Rightarrow> TransactionItem list \<Rightarrow> int" where
  "calculateTotal formProducts items =
     foldl (\<lambda>total item. total + priceOrZero formProducts (productId item) * quantity item) 0 items"

text \<open>The local constants \<open>transactionItems\<close> and \<open>newTransaction\<close> of \<open>onSubmit\<close> (lines
  233-261).\<close>

definition transactionItems :: "Product list \<Rightarrow> FormValues \<Rightarrow> TransactionItem list" where
  "transactionItems formProducts values' =
     map (\<lambda>item. \<lparr>productId = fi_productId item, quantity = fi_quantity item,
                   priceAtTransaction = priceOrZero formProducts (fi_productId item)\<rparr>)
       (fv_items values')"

definition newTransaction ::
  "TransactionType \<Rightarrow> Product list \<Rightarrow> int \<Rightarrow> User \<Rightarrow> string \<Rightarrow> string \<Rightarrow> FormValues \<Rightarrow> Transaction" where
  "newTransaction type formProducts deliveryCost currentUser newId now values' =
     (let subtotal = calculateTotal formProducts (transactionItems formProducts values');
          total' = (if type = TOut then subtotal + deliveryCost else subtotal)
      in \<lparr>t_id = newId, t_type = type, t_items = transactionItems formProducts values',
          t_totalAmount = total', t_userId = u_id currentUser,
          t_status = (if type = TIn then Completed else Pending),
          t_notes = fv_notes values', t_deliveryMethodId = fv_deliveryMethodId values',
          t_deliveryAddress = fv_deliveryAddress values',
          t_paymentMethodId = fv_paymentMethodId values',
          t_paymentProof = fv_paymentProof values',
          t_createdAt = now, t_updatedAt = now\<rparr>)"

text \<open>
  \<open>onSubmit\<close> (lines 214-286). Without a current user, and for an \<open>out\<close> transaction that
  \<open>canProcessTransaction\<close> refuses, it returns before \<open>addTransaction\<close> and the store is
  unchanged; otherwise it adds the new transaction. The boolean says whether the
  transaction was added (\<open>onSuccess\<close> was called).
\<close>

definition onSubmit ::
  "TransactionType \<Rightarrow> Product list \<Rightarrow> int \<Rightarrow> User option \<Rightarrow> string \<Rightarrow> string \<Rightarrow> FormValues
     \<Rightarrow> storage \<Rightarrow> bool \<times> storage" where
  "onSubmit type formProducts deliveryCost currentUser newId now values' st =
     (case currentUser of
        None \<Rightarrow> (False, st)
      | Some user \<Rightarrow>
          let new = newTransaction type formProducts deliveryCost user newId now values' in
          if type = TOut \<and> \<not> canProcessTransaction new st then (False, st)
          else (True, addTransaction now new st))"

section \<open>Observing the ledger\<close>

text \<open>
  The total quantity a list of items moves on the product at index \<open>i\<close>: the sum over
  the items whose \<open>findIndex\<close> is \<open>i\<close>.
\<close>

definition quantityAt :: "Product list \<Rightarrow> TransactionItem list \<Rightarrow> nat \<Rightarrow> int" where
  "quantityAt ps items i = (\<Sum>item\<leftarrow>items. if itemIndex ps item = Some i then quantity item else 0)"

text \<open>
  Whether the floor \<open>if (products[productIndex].stock < 0) products[productIndex].stock =
  0\<close> fires on the product at index \<open>i\<close> when one item is subtracted, and whether it
  fires there at some item of the \<open>forEach\<close> of \<open>updateStockFromTransaction\<close> (only its
  \<open>out\<close> branch has the floor) or of \<open>reverseTransactionStockEffects\<close> (only its \<open>in\<close>
  branch has it).
\<close>

definition decrementClamps :: "Product list \<Rightarrow> TransactionItem \<Rightarrow> nat \<Rightarrow> bool" where
  "decrementClamps ps item i = (itemIndex ps item = Some i \<and> p_stock (ps ! i) - quantity item < 0)"

fun applyClamps :: "TransactionType \<Rightarrow> string \<Rightarrow> Product list \<Rightarrow> TransactionItem list \<Rightarrow> nat \<Rightarrow> bool" where
  "applyClamps ty now ps [] i = False"
| "applyClamps ty now ps (item # items) i =
     ((ty = TOut \<and> decrementClamps ps item i) \<or> applyClamps ty now (applyItem ty now ps item) items i)"

fun reverseClamps :: "TransactionType \<Rightarrow> string \<Rightarrow> Product list \<Rightarrow> TransactionItem list \<Rightarrow> nat \<Rightarrow> bool" where
  "reverseClamps ty now ps [] i = False"
| "reverseClamps ty now ps (item # items) i =
     ((ty = TIn \<and> decrementClamps ps item i) \<or> reverseClamps ty now (reverseItem ty now ps item) items i)"

section \<open>The ledger calls of a lifecycle\<close>

text \<open>
  The calls that \<open>addTransaction\<close> and \<open>updateTransaction\<close> make to the two ledger
  functions, recorded in order with the transaction each call is given. The conditions
  are those of the source: \<open>addTransaction\<close> calls \<open>updateStockFromTransaction\<close> when the
  status is \<open>completed\<close> (part_006, line 262); \<open>updateTransaction\<close> calls it with the
  updated transaction on a change to \<open>completed\<close> (line 297) and calls
  \<open>reverseTransactionStockEffects\<close> with the old transaction on a change away from
  \<open>completed\<close> (line 301).
\<close>

datatype LedgerCall = ApplyEffect Transaction | ReverseEffect Transaction

fun runLedgerCall :: "string \<Rightarrow> storage \<Rightarrow> LedgerCall \<Rightarrow> storage" where
  "runLedgerCall now st (ApplyEffect transaction) = updateStockFromTransaction now transaction st"
| "runLedgerCall now st (ReverseEffect transaction) = reverseTransactionStockEffects now transaction st"

fun callTransaction :: "LedgerCall \<Rightarrow> Transaction" where
  "callTransaction (ApplyEffect transaction) = transaction"
| "callTransaction (ReverseEffect transaction) = transaction"

fun callSign :: "LedgerCall \<Rightarrow> int" where
  "callSign (ApplyEffect transaction) = 1"
| "callSign (ReverseEffect transaction) = - 1"

text \<open>Applications minus reversals.\<close>

definition netApplied :: "LedgerCall list \<Rightarrow> int" where
  "netApplied calls = sum_list (map callSign calls)"

definition addTransactionCalls :: "Transaction \<Rightarrow> LedgerCall list" where
  "addTransactionCalls transaction =
     (if t_status transaction = Completed then [ApplyEffect transaction] else [])"

definition updateTransactionCalls :: "Transaction \<Rightarrow> storage \<Rightarrow> LedgerCall list" where
  "updateTransactionCalls updatedTransaction st =
     (case findIndex (\<lambda>t. t_id t = t_id updatedTransaction) (transactions st) of
        Some index \<Rightarrow>
          let oldTransaction = transactions st ! index in
          if t_status oldTransaction \<noteq> Completed \<and> t_status updatedTransaction = Completed
          then [ApplyEffect updatedTransaction]
          else if t_status oldTransaction = Completed \<and> t_status updatedTransaction \<noteq> Completed
          then [ReverseEffect oldTransaction]
          else []
      | None \<Rightarrow> [])"

text \<open>
  A status update reaches the store through either exported function. A sequence of
  updates is performed left to right; \<open>updatesCalls\<close> collects the ledger calls made on
  the way.
\<close>

datatype UpdateRequest =
  ViaUpdateTransaction Transaction
| ViaUpdateTransactionStatus string TransactionStatus

fun performUpdate :: "string \<Rightarrow> UpdateRequest \<Rightarrow> storage \<Rightarrow> bool \<times> storage" where
  "performUpdate now (ViaUpdateTransaction updatedTransaction) st =
     updateTransaction now updatedTransaction st"
| "performUpdate now (ViaUpdateTransactionStatus transactionId status) st =
     updateTransactionStatus now transactionId status st"

fun requestCalls :: "string \<Rightarrow> UpdateRequest \<Rightarrow> storage \<Rightarrow> LedgerCall list" where
  "requestCalls now (ViaUpdateTransaction updatedTransaction) st =
     updateTransactionCalls updatedTransaction st"
| "requestCalls now (ViaUpdateTransactionStatus transactionId status) st =
     (case findIndex (\<lambda>t. t_id t = transactionId) (transactions st) of
        Some index \<Rightarrow>
          updateTransactionCalls
            ((transactions st ! index)\<lparr>t_status := status, t_updatedAt := now\<rparr>) st
      | None \<Rightarrow> [])"

fun performUpdates :: "string \<Rightarrow> UpdateRequest list \<Rightarrow> storage \<Rightarrow> storage" where
  "performUpdates now [] st = st"
| "performUpdates now (r # rs) st = performUpdates now rs (snd (performUpdate now r st))"

fun updatesCalls :: "string \<Rightarrow> UpdateRequest list \<Rightarrow> storage \<Rightarrow> LedgerCall list" where
  "updatesCalls now [] st = []"
| "updatesCalls now (r # rs) st =
     requestCalls now r st @ updatesCalls now rs (snd (performUpdate now r st))"

text \<open>The status a request asks for, and whether a request is a status update of a given
  transaction: it names the transaction's id and, when it carries a whole transaction,
  keeps the type and the items.\<close>

fun requestStatus :: "UpdateRequest \<Rightarrow> TransactionStatus" where
  "requestStatus (ViaUpdateTransaction updatedTransaction) = t_status updatedTransaction"
| "requestStatus (ViaUpdateTransactionStatus transactionId status) = status"

fun statusUpdateOf :: "Transaction \<Rightarrow> UpdateRequest \<Rightarrow> bool" where
  "statusUpdateOf transaction (ViaUpdateTransaction updatedTransaction) =
     (t_id updatedTransaction = t_id transaction \<and>
      t_type updatedTransaction = t_type transaction \<and>
      t_items updatedTransaction = t_items transaction)"
| "statusUpdateOf transaction (ViaUpdateTransactionStatus transactionId status) =
     (transactionId = t_id transaction)"

section \<open>The lifecycle as the specification words it\<close>

text \<open>
  Following the specification's words (section 4.2, the table of the outbound lifecycle):
  the legal successors of each status. The storage module has no such table; this
  definition exists only to say which transitions the specification calls illegal.
\<close>

fun specLegalSuccessor :: "TransactionStatus \<Rightarrow> TransactionStatus \<Rightarrow> bool" where
  "specLegalSuccessor Pending s = (s = PaymentConfirmed \<or> s = Cancelled)"
| "specLegalSuccessor PaymentConfirmed s = (s = Processing \<or> s = Cancelled)"
| "specLegalSuccessor Processing s = (s = ReadyForPickup \<or> s = Shipping \<or> s = Cancelled)"
| "specLegalSuccessor ReadyForPickup s = (s = Completed)"
| "specLegalSuccessor Shipping s = (s = Completed)"
| "specLegalSuccessor Completed s = False"
| "specLegalSuccessor Cancelled s = False"

section \<open>A small concrete store\<close>

definition ex_category :: ProductCategory where
  "ex_category = \<lparr>c_id = ''C1'', c_name = ''Spareparts'', c_description = None,
     c_createdAt = ''d0'', c_updatedAt = ''d0''\<rparr>"

definition ex_product :: Product where
  "ex_product = \<lparr>p_id = ''P1'', p_code = ''SP-001'', p_name = ''LCD'', p_categoryId = ''C1'',
     p_price = 100, p_vipPrice = None, p_stock = 5, p_createdAt = ''d0'', p_updatedAt = ''d0''\<rparr>"

definition ex_order :: Transaction where
  "ex_order = \<lparr>t_id = ''T1'', t_type = TOut,
     t_items = [\<lparr>productId = ''P1'', quantity = 5, priceAtTransaction = 100\<rparr>],
     t_totalAmount = 500, t_userId = ''2'', t_status = Pending, t_notes = None,
     t_deliveryMethodId = Some ''D1'', t_deliveryAddress = None,
     t_paymentMethodId = Some ''M1'', t_paymentProof = None,
     t_createdAt = ''d1'', t_updatedAt = ''d1''\<rparr>"

definition ex_store :: storage where
  "ex_store = \<lparr>users = [], categories = [ex_category], products = [ex_product],
     transactions = [ex_order]\<rparr>"

definition ex_two_items :: "TransactionItem list" where
  "ex_two_items = [\<lparr>productId = ''P9'', quantity = 2, priceAtTransaction = 100\<rparr>,
                   \<lparr>productId = ''P1'', quantity = 3, priceAtTransaction = 100\<rparr>]"

definition ex_completed :: "int list \<Rightarrow> Transaction" where
  "ex_completed qs = ex_order\<lparr>t_status := Completed,
     t_items := map (\<lambda>q. \<lparr>productId = ''P1'', quantity = q, priceAtTransaction = 100\<rparr>) qs\<rparr>"

definition ex_admin :: User where
  "ex_admin = \<lparr>u_id = ''1'', u_username = ''admin'', u_password = ''admin123'', u_role = Admin,
     u_type = Regular, u_name = ''Administrator'', u_email = None, u_phone = None,
     u_address = None, u_csCode = None, u_createdAt = ''d0''\<rparr>"

definition ex_inbound_form :: FormValues where
  "ex_inbound_form = \<lparr>fv_notes = None, fv_deliveryMethodId = None, fv_deliveryAddress = None,
     fv_paymentMethodId = None, fv_paymentProof = None,
     fv_items = [\<lparr>fi_productId = ''P1'', fi_quantity = 10\<rparr>]\<rparr>"

definition ex_small_order :: Transaction where
  "ex_small_order = ex_order\<lparr>t_items := [\<lparr>productId = ''P1'', quantity = 2, priceAtTransaction = 100\<rparr>],
     t_totalAmount := 200\<rparr>"

definition ex_requests :: "UpdateRequest list" where
  "ex_requests = [ViaUpdateTransactionStatus ''T1'' PaymentConfirmed,
                  ViaUpdateTransactionStatus ''T1'' Completed,
                  ViaUpdateTransaction (ex_small_order\<lparr>t_status := Processing\<rparr>),
                  ViaUpdateTransactionStatus ''T1'' Completed]"

section \<open>Facts about \<open>findIndex\<close>\<close>

lemma findIndex_None_iff: "findIndex P xs = None \<longleftrightarrow> (\<forall>x\<in>set xs. \<not> P x)"
  by (induction xs) auto

lemma findIndex_Some_D:
  "findIndex P xs = Some i \<Longrightarrow> i < length xs \<and> P (xs ! i) \<and> (\<forall>j<i. \<not> P (xs ! j))"
proof (induction xs arbitrary: i)
  case Nil
  then show ?case by simp
next
  case (Cons x xs)
  show ?case
  proof (cases "P x")
    case True
    with Cons.prems show ?thesis by simp
  next
    case False
    with Cons.prems obtain k where k: "findIndex P xs = Some k" "i = Suc k" by auto
    from Cons.IH[OF k(1)] False k(2) show ?thesis
      by (auto simp: nth_Cons split: nat.splits)
  qed
qed

lemma findIndex_map_cong: "map P xs = map Q ys \<Longrightarrow> findIndex P xs = findIndex Q ys"
proof (induction xs arbitrary: ys)
  case Nil
  then show ?case by simp
next
  case (Cons x xs)
  then obtain y ys' where "ys = y # ys'" by (cases ys) auto
  with Cons show ?case by auto
qed

lemma find_findIndex:
  "find P xs = (case findIndex P xs of None \<Rightarrow> None | Some i \<Rightarrow> Some (xs ! i))"
  by (induction xs) (auto split: option.splits)

section \<open>Status updates are unchecked\<close>

text \<open>
  C1, as the code has it. \<open>updateTransactionStatus\<close> takes a transaction id and a target
  status and no actor. It fails, leaving the store as it was, exactly when no stored
  transaction has the id. For a stored transaction it succeeds for every target status,
  whatever the current one, and writes that status (and the time) to the first
  transaction with the id.
\<close>

theorem updateTransactionStatus_only_checks_id:
  "fst (updateTransactionStatus now transactionId status st)
      = (transactionId \<in> t_id ` set (transactions st)) \<and>
   (transactionId \<notin> t_id ` set (transactions st) \<longrightarrow>
      updateTransactionStatus now transactionId status st = (False, st)) \<and>
   (\<forall>index. findIndex (\<lambda>t. t_id t = transactionId) (transactions st) = Some index \<longrightarrow>
      transactions (snd (updateTransactionStatus now transactionId status st))
        = (transactions st)[index := (transactions st ! index)\<lparr>t_status := status, t_updatedAt := now\<rparr>])"
proof (cases "findIndex (\<lambda>t. t_id t = transactionId) (transactions st)")
  case None
  then have "transactionId \<notin> t_id ` set (transactions st)"
    by (auto simp: findIndex_None_iff)
  with None show ?thesis by (simp add: updateTransactionStatus_def)
next
  case (Some i)
  from findIndex_Some_D[OF Some]
  have i: "i < length (transactions st)" "t_id (transactions st ! i) = transactionId"
    by auto
  then have mem: "transactionId \<in> t_id ` set (transactions st)"
    by (metis image_eqI nth_mem)
  from Some i mem show ?thesis
    by (simp add: updateTransactionStatus_def updateTransaction_def Let_def
        updateStockFromTransaction_def reverseTransactionStockEffects_def)
qed

theorem updateTransactionStatus_only_checks_id_witness:
  "fst (updateTransactionStatus ''d2'' ''T1'' Cancelled ex_store) \<and>
   updateTransactionStatus ''d2'' ''T9'' Cancelled ex_store = (False, ex_store) \<and>
   transactions (snd (updateTransactionStatus ''d2'' ''T1'' Cancelled ex_store))
     = [ex_order\<lparr>t_status := Cancelled, t_updatedAt := ''d2''\<rparr>]"
  using updateTransactionStatus_only_checks_id [of "''d2''" "''T1''" Cancelled ex_store]
    updateTransactionStatus_only_checks_id [of "''d2''" "''T9''" Cancelled ex_store]
  by (simp add: ex_store_def ex_order_def)

text \<open>
  The skip the claim names, pending directly to completed, is not a legal step of the
  specification's table, yet the code performs it: the call succeeds and the stored
  status is completed afterwards.
\<close>

theorem updateTransactionStatus_skip_counterexample:
  "\<not> specLegalSuccessor (t_status (transactions ex_store ! 0)) Completed \<and>
   t_status (transactions ex_store ! 0) = Pending \<and>
   fst (updateTransactionStatus ''d2'' ''T1'' Completed ex_store) = True \<and>
   t_status (transactions (snd (updateTransactionStatus ''d2'' ''T1'' Completed ex_store)) ! 0)
     = Completed"
  by (simp add: ex_store_def ex_order_def updateTransactionStatus_def updateTransaction_def
      updateStockFromTransaction_def Let_def)

section \<open>Catalog edits leave transactions alone\<close>

text \<open>
  C8. \<open>updateProduct\<close> writes the products collection only: the stored transactions, and
  with them every item and every \<open>priceAtTransaction\<close>, are the same before and after, as
  are the users and the categories.
\<close>

theorem updateProduct_keeps_transactions:
  "transactions (snd (updateProduct updatedProduct st)) = transactions st \<and>
   map (map priceAtTransaction \<circ> t_items) (transactions (snd (updateProduct updatedProduct st)))
     = map (map priceAtTransaction \<circ> t_items) (transactions st) \<and>
   users (snd (updateProduct updatedProduct st)) = users st \<and>
   categories (snd (updateProduct updatedProduct st)) = categories st"
  by (simp add: updateProduct_def split: option.split)

section \<open>The price a user pays\<close>

text \<open>
  C9. \<open>getPriceForUser\<close> returns the product's \<open>vipPrice\<close> when the tier is vip and a
  \<open>vipPrice\<close> is set, and the base \<open>price\<close> otherwise; in particular a vip user on a
  product without \<open>vipPrice\<close> pays \<open>price\<close>. The result is a function of the product and
  the tier alone: the model takes no store and returns none.
\<close>

theorem getPriceForUser_tier:
  "(userType = Vip \<and> p_vipPrice product = Some vip \<longrightarrow> getPriceForUser product userType = vip) \<and>
   (userType \<noteq> Vip \<or> p_vipPrice product = None \<longrightarrow> getPriceForUser product userType = p_price product) \<and>
   (p_vipPrice product = None \<longrightarrow> getPriceForUser product Vip = p_price product)"
  by (auto simp: getPriceForUser_def split: option.splits)

theorem getPriceForUser_tier_witness:
  "getPriceForUser (ex_product\<lparr>p_vipPrice := Some 80\<rparr>) Vip = 80 \<and>
   getPriceForUser (ex_product\<lparr>p_vipPrice := Some 80\<rparr>) Regular = 100 \<and>
   getPriceForUser ex_product Vip = 100"
  using getPriceForUser_tier [of Vip "ex_product\<lparr>p_vipPrice := Some 80\<rparr>" 80]
    getPriceForUser_tier [of Regular "ex_product\<lparr>p_vipPrice := Some 80\<rparr>" 80]
    getPriceForUser_tier [of Vip ex_product 0]
  by (simp add: ex_product_def)

section \<open>Deleting a category\<close>

lemma filter_length_neq_iff: "length (filter P xs) \<noteq> length xs \<longleftrightarrow> (\<exists>x\<in>set xs. \<not> P x)"
proof
  assume "length (filter P xs) \<noteq> length xs"
  then have "filter P xs \<noteq> xs" by auto
  then show "\<exists>x\<in>set xs. \<not> P x" by (metis filter_True)
next
  assume "\<exists>x\<in>set xs. \<not> P x"
  then obtain x where "x \<in> set xs" "\<not> P x" by blast
  then have "length (filter P xs) < length xs" by (rule length_filter_less)
  then show "length (filter P xs) \<noteq> length xs" by simp
qed

lemma deleteCategory_in_use:
  "\<exists>p\<in>set (products st). p_categoryId p = categoryId \<Longrightarrow> deleteCategory categoryId st = (False, st)"
  by (auto simp: deleteCategory_def list_ex_iff)

lemma deleteCategory_unused:
  assumes "\<forall>p\<in>set (products st). p_categoryId p \<noteq> categoryId"
    and "categoryId \<in> c_id ` set (categories st)"
  shows "deleteCategory categoryId st
     = (True, st\<lparr>categories := filter (\<lambda>c. c_id c \<noteq> categoryId) (categories st)\<rparr>)"
proof -
  from assms(1) have "\<not> list_ex (\<lambda>p. p_categoryId p = categoryId) (products st)"
    by (auto simp: list_ex_iff)
  moreover from assms(2)
  have "length (filter (\<lambda>c. c_id c \<noteq> categoryId) (categories st)) \<noteq> length (categories st)"
    unfolding filter_length_neq_iff by auto
  ultimately show ?thesis by (simp add: deleteCategory_def)
qed

lemma deleteProduct_products:
  "products (snd (deleteProduct k st)) = filter (\<lambda>p. p_id p \<noteq> k) (products st) \<and>
   categories (snd (deleteProduct k st)) = categories st"
  by (auto simp: deleteProduct_def Let_def filter_length_neq_iff)

lemma updateProduct_products:
  "findIndex (\<lambda>p. p_id p = p_id q) (products st) = Some i \<Longrightarrow>
   products (snd (updateProduct q st)) = (products st)[i := q] \<and>
   categories (snd (updateProduct q st)) = categories st"
  by (simp add: updateProduct_def)

text \<open>
  C7. \<open>deleteCategory\<close> returns \<open>false\<close> and leaves the whole store as it was whenever a
  product refers to the category. When no product refers to it and a category with the
  id is stored, it returns \<open>true\<close> and the store no longer holds a category with the id.
  Consequently, once the last product that referred to the category has been deleted
  (\<open>deleteProduct\<close>) or given another category (\<open>updateProduct\<close>), deleting the category
  succeeds.
\<close>

theorem deleteCategory_referential_integrity:
  "((\<exists>p\<in>set (products st). p_categoryId p = categoryId) \<longrightarrow>
      deleteCategory categoryId st = (False, st)) \<and>
   ((\<forall>p\<in>set (products st). p_categoryId p \<noteq> categoryId) \<and>
    categoryId \<in> c_id ` set (categories st) \<longrightarrow>
      deleteCategory categoryId st
        = (True, st\<lparr>categories := filter (\<lambda>c. c_id c \<noteq> categoryId) (categories st)\<rparr>) \<and>
      categoryId \<notin> c_id ` set (categories (snd (deleteCategory categoryId st)))) \<and>
   ((\<forall>p\<in>set (products st). p_categoryId p = categoryId \<longrightarrow> p_id p = lastId) \<and>
    categoryId \<in> c_id ` set (categories st) \<longrightarrow>
      fst (deleteCategory categoryId (snd (deleteProduct lastId st)))) \<and>
   (findIndex (\<lambda>p. p_id p = p_id moved) (products st) = Some i \<and>
    (\<forall>j<length (products st). p_categoryId (products st ! j) = categoryId \<longrightarrow> j = i) \<and>
    p_categoryId moved \<noteq> categoryId \<and>
    categoryId \<in> c_id ` set (categories st) \<longrightarrow>
      fst (deleteCategory categoryId (snd (updateProduct moved st))))"
proof (intro conjI impI)
  assume "\<exists>p\<in>set (products st). p_categoryId p = categoryId"
  then show "deleteCategory categoryId st = (False, st)" by (rule deleteCategory_in_use)
next
  assume a: "(\<forall>p\<in>set (products st). p_categoryId p \<noteq> categoryId) \<and>
    categoryId \<in> c_id ` set (categories st)"
  then show eq: "deleteCategory categoryId st
        = (True, st\<lparr>categories := filter (\<lambda>c. c_id c \<noteq> categoryId) (categories st)\<rparr>)"
    by (simp add: deleteCategory_unused)
  show "categoryId \<notin> c_id ` set (categories (snd (deleteCategory categoryId st)))"
    unfolding eq by auto
next
  assume a: "(\<forall>p\<in>set (products st). p_categoryId p = categoryId \<longrightarrow> p_id p = lastId) \<and>
    categoryId \<in> c_id ` set (categories st)"
  let ?st = "snd (deleteProduct lastId st)"
  from a have "\<forall>p\<in>set (products ?st). p_categoryId p \<noteq> categoryId"
    by (auto simp: deleteProduct_products)
  moreover from a have "categoryId \<in> c_id ` set (categories ?st)"
    by (simp add: deleteProduct_products)
  ultimately show "fst (deleteCategory categoryId ?st)"
    by (simp add: deleteCategory_unused)
next
  assume a: "findIndex (\<lambda>p. p_id p = p_id moved) (products st) = Some i \<and>
    (\<forall>j<length (products st). p_categoryId (products st ! j) = categoryId \<longrightarrow> j = i) \<and>
    p_categoryId moved \<noteq> categoryId \<and>
    categoryId \<in> c_id ` set (categories st)"
  let ?st = "snd (updateProduct moved st)"
  from a have ps: "products ?st = (products st)[i := moved]" and cs: "categories ?st = categories st"
    by (simp_all add: updateProduct_products)
  have "\<forall>p\<in>set (products ?st). p_categoryId p \<noteq> categoryId"
  proof
    fix p assume "p \<in> set (products ?st)"
    then obtain j where j: "j < length (products st)" "p = (products st)[i := moved] ! j"
      unfolding ps by (metis in_set_conv_nth length_list_update)
    show "p_categoryId p \<noteq> categoryId"
    proof (cases "j = i")
      case True
      with j a show ?thesis by simp
    next
      case False
      with j a show ?thesis by auto
    qed
  qed
  moreover from a cs have "categoryId \<in> c_id ` set (categories ?st)" by simp
  ultimately show "fst (deleteCategory categoryId ?st)"
    by (simp add: deleteCategory_unused)
qed

theorem deleteCategory_referential_integrity_witness:
  "deleteCategory ''C1'' ex_store = (False, ex_store) \<and>
   deleteCategory ''C1'' (ex_store\<lparr>products := []\<rparr>)
     = (True, ex_store\<lparr>products := [], categories := []\<rparr>) \<and>
   fst (deleteCategory ''C1'' (snd (deleteProduct ''P1'' ex_store))) \<and>
   fst (deleteCategory ''C1'' (snd (updateProduct (ex_product\<lparr>p_categoryId := ''C2''\<rparr>) ex_store)))"
  using deleteCategory_referential_integrity [of ex_store "''C1''" "''P1''" "ex_product\<lparr>p_categoryId := ''C2''\<rparr>" 0]
    deleteCategory_referential_integrity [of "ex_store\<lparr>products := []\<rparr>" "''C1''" "''P1''" ex_product 0]
  by (simp add: ex_store_def ex_product_def ex_category_def)

section \<open>Facts about the ledger's loops\<close>

text \<open>
  Both loops change only \<open>stock\<close> and \<open>updatedAt\<close> of the products they find: the
  product list keeps its length and its ids, so every item finds its product at the same
  index before and after.
\<close>

lemma itemIndex_bound: "itemIndex ps item = Some i \<Longrightarrow> i < length ps"
  unfolding itemIndex_def by (drule findIndex_Some_D) simp

lemma itemIndex_ids_cong: "map p_id ps' = map p_id ps \<Longrightarrow> itemIndex ps' item = itemIndex ps item"
proof -
  assume "map p_id ps' = map p_id ps"
  then have "map (\<lambda>p. p_id p = productId item) ps' = map (\<lambda>p. p_id p = productId item) ps"
    by (simp add: list_eq_iff_nth_eq)
  then show ?thesis unfolding itemIndex_def by (rule findIndex_map_cong)
qed

lemma itemIndex_None_iff: "itemIndex ps item = None \<longleftrightarrow> productId item \<notin> p_id ` set ps"
  unfolding itemIndex_def findIndex_None_iff by (auto simp: image_iff)

lemma list_update_keeps_ids:
  "i < length ps \<Longrightarrow> p_id q = p_id (ps ! i) \<Longrightarrow> map p_id (ps[i := q]) = map p_id ps"
  by (simp add: map_update list_update_same_conv)

lemma applyItem_ids: "map p_id (applyItem ty now ps item) = map p_id ps"
proof (cases "itemIndex ps item")
  case None
  then show ?thesis by (simp add: applyItem_def)
next
  case (Some i)
  then have "i < length ps" by (rule itemIndex_bound)
  with Some show ?thesis
    by (cases ty) (simp_all add: applyItem_def Let_def list_update_keeps_ids)
qed

lemma reverseItem_ids: "map p_id (reverseItem ty now ps item) = map p_id ps"
proof (cases "itemIndex ps item")
  case None
  then show ?thesis by (simp add: reverseItem_def)
next
  case (Some i)
  then have "i < length ps" by (rule itemIndex_bound)
  with Some show ?thesis
    by (cases ty) (simp_all add: reverseItem_def Let_def list_update_keeps_ids)
qed

lemma applyItem_length: "length (applyItem ty now ps item) = length ps"
  using applyItem_ids [of ty now ps item] by (metis length_map)

lemma reverseItem_length: "length (reverseItem ty now ps item) = length ps"
  using reverseItem_ids [of ty now ps item] by (metis length_map)

lemma foldl_applyItem_ids: "map p_id (foldl (applyItem ty now) ps items) = map p_id ps"
  by (induction items arbitrary: ps) (simp_all add: applyItem_ids)

lemma foldl_reverseItem_ids: "map p_id (foldl (reverseItem ty now) ps items) = map p_id ps"
  by (induction items arbitrary: ps) (simp_all add: reverseItem_ids)

lemma foldl_applyItem_length: "length (foldl (applyItem ty now) ps items) = length ps"
  using foldl_applyItem_ids [of ty now ps items] by (metis length_map)

lemma foldl_reverseItem_length: "length (foldl (reverseItem ty now) ps items) = length ps"
  using foldl_reverseItem_ids [of ty now ps items] by (metis length_map)

text \<open>The stock one item leaves at index \<open>i\<close>.\<close>

lemma applyItem_stock:
  "i < length ps \<Longrightarrow>
   p_stock (applyItem ty now ps item ! i) =
     (if itemIndex ps item = Some i
      then (case ty of TIn \<Rightarrow> p_stock (ps ! i) + quantity item
                     | TOut \<Rightarrow> max 0 (p_stock (ps ! i) - quantity item))
      else p_stock (ps ! i))"
  by (cases ty; cases "itemIndex ps item")
    (simp_all add: applyItem_def Let_def nth_list_update max_def)

lemma reverseItem_stock:
  "i < length ps \<Longrightarrow>
   p_stock (reverseItem ty now ps item ! i) =
     (if itemIndex ps item = Some i
      then (case ty of TOut \<Rightarrow> p_stock (ps ! i) + quantity item
                     | TIn \<Rightarrow> max 0 (p_stock (ps ! i) - quantity item))
      else p_stock (ps ! i))"
  by (cases ty; cases "itemIndex ps item")
    (simp_all add: reverseItem_def Let_def nth_list_update max_def)

lemma quantityAt_Nil: "quantityAt ps [] i = 0"
  by (simp add: quantityAt_def)

lemma quantityAt_Cons:
  "quantityAt ps (item # items) i
     = (if itemIndex ps item = Some i then quantity item else 0) + quantityAt ps items i"
  by (simp add: quantityAt_def)

lemma quantityAt_ids_cong: "map p_id ps' = map p_id ps \<Longrightarrow> quantityAt ps' items i = quantityAt ps items i"
  using itemIndex_ids_cong [of ps' ps] by (simp add: quantityAt_def)

section \<open>Stock never goes below zero\<close>

lemma foldl_applyItem_nonneg:
  "\<forall>p\<in>set ps. 0 \<le> p_stock p \<Longrightarrow> \<forall>item\<in>set items. 0 \<le> quantity item \<Longrightarrow>
   \<forall>p\<in>set (foldl (applyItem ty now) ps items). 0 \<le> p_stock p"
proof (induction items arbitrary: ps)
  case Nil
  then show ?case by simp
next
  case (Cons item items)
  have "\<forall>p\<in>set (applyItem ty now ps item). 0 \<le> p_stock p"
  proof
    fix p assume "p \<in> set (applyItem ty now ps item)"
    then obtain i where i: "i < length ps" "p = applyItem ty now ps item ! i"
      by (metis in_set_conv_nth applyItem_length)
    from Cons.prems(1) i(1) have "0 \<le> p_stock (ps ! i)" by simp
    moreover from Cons.prems(2) have "0 \<le> quantity item" by simp
    ultimately show "0 \<le> p_stock p"
      unfolding i(2) by (cases ty) (simp_all add: applyItem_stock i(1))
  qed
  with Cons.IH [of "applyItem ty now ps item"] Cons.prems(2) show ?case by simp
qed

lemma foldl_reverseItem_nonneg:
  "\<forall>p\<in>set ps. 0 \<le> p_stock p \<Longrightarrow> \<forall>item\<in>set items. 0 \<le> quantity item \<Longrightarrow>
   \<forall>p\<in>set (foldl (reverseItem ty now) ps items). 0 \<le> p_stock p"
proof (induction items arbitrary: ps)
  case Nil
  then show ?case by simp
next
  case (Cons item items)
  have "\<forall>p\<in>set (reverseItem ty now ps item). 0 \<le> p_stock p"
  proof
    fix p assume "p \<in> set (reverseItem ty now ps item)"
    then obtain i where i: "i < length ps" "p = reverseItem ty now ps item ! i"
      by (metis in_set_conv_nth reverseItem_length)
    from Cons.prems(1) i(1) have "0 \<le> p_stock (ps ! i)" by simp
    moreover from Cons.prems(2) have "0 \<le> quantity item" by simp
    ultimately show "0 \<le> p_stock p"
      unfolding i(2) by (cases ty) (simp_all add: reverseItem_stock i(1))
  qed
  with Cons.IH [of "reverseItem ty now ps item"] Cons.prems(2) show ?case by simp
qed

text \<open>
  C4. When every product's stock is non-negative and every item quantity of the
  transaction is non-negative, every product's stock is non-negative after
  \<open>updateStockFromTransaction\<close> and after \<open>reverseTransactionStockEffects\<close>. Neither
  function has an error result: a decrement of more than the stock (the \<open>out\<close> branch of
  the first, the \<open>in\<close> branch of the second) leaves the stock at exactly zero.
\<close>

theorem ledger_keeps_stock_nonnegative:
  "((\<forall>p\<in>set (products st). 0 \<le> p_stock p) \<and> (\<forall>item\<in>set (t_items transaction). 0 \<le> quantity item) \<longrightarrow>
      (\<forall>p\<in>set (products (updateStockFromTransaction now transaction st)). 0 \<le> p_stock p) \<and>
      (\<forall>p\<in>set (products (reverseTransactionStockEffects now transaction st)). 0 \<le> p_stock p)) \<and>
   (itemIndex ps item = Some i \<and> p_stock (ps ! i) < quantity item \<longrightarrow>
      p_stock (applyItem TOut now ps item ! i) = 0 \<and>
      p_stock (reverseItem TIn now ps item ! i) = 0)"
proof (intro conjI impI)
  assume a: "(\<forall>p\<in>set (products st). 0 \<le> p_stock p) \<and> (\<forall>item\<in>set (t_items transaction). 0 \<le> quantity item)"
  then show "\<forall>p\<in>set (products (updateStockFromTransaction now transaction st)). 0 \<le> p_stock p"
    using foldl_applyItem_nonneg [of "products st" "t_items transaction" "t_type transaction" now]
    by (simp add: updateStockFromTransaction_def)
  from a show "\<forall>p\<in>set (products (reverseTransactionStockEffects now transaction st)). 0 \<le> p_stock p"
    using foldl_reverseItem_nonneg [of "products st" "t_items transaction" "t_type transaction" now]
    by (simp add: reverseTransactionStockEffects_def)
next
  assume a: "itemIndex ps item = Some i \<and> p_stock (ps ! i) < quantity item"
  then have i: "i < length ps" using itemIndex_bound by blast
  from a show "p_stock (applyItem TOut now ps item ! i) = 0"
    by (simp add: applyItem_stock i)
  from a show "p_stock (reverseItem TIn now ps item ! i) = 0"
    by (simp add: reverseItem_stock i)
qed

theorem ledger_keeps_stock_nonnegative_witness:
  "map p_stock (products (updateStockFromTransaction ''d2''
       (ex_order\<lparr>t_status := Completed, t_items := [\<lparr>productId = ''P1'', quantity = 7, priceAtTransaction = 100\<rparr>]\<rparr>)
       ex_store)) = [0] \<and>
   p_stock (applyItem TOut ''d2'' [ex_product] \<lparr>productId = ''P1'', quantity = 7, priceAtTransaction = 100\<rparr> ! 0) = 0"
  using ledger_keeps_stock_nonnegative [where st = ex_store and now = "''d2''" and i = 0
      and transaction = "ex_order\<lparr>t_status := Completed, t_items := [\<lparr>productId = ''P1'', quantity = 7, priceAtTransaction = 100\<rparr>]\<rparr>"
      and ps = "[ex_product]" and item = "\<lparr>productId = ''P1'', quantity = 7, priceAtTransaction = 100\<rparr>"]
  by (simp add: ex_store_def ex_order_def ex_product_def itemIndex_def
      updateStockFromTransaction_def applyItem_def Let_def)

section \<open>The stock the loops leave\<close>

text \<open>
  The stock at index \<open>i\<close> after each loop, in terms of the total quantity the items move
  there. Adding is exact. Subtracting with the floor gives the difference when the floor
  did not fire on the product and more than the difference when it did.
\<close>

lemma foldl_applyItem_TIn_stock:
  "i < length ps \<Longrightarrow>
   p_stock (foldl (applyItem TIn now) ps items ! i) = p_stock (ps ! i) + quantityAt ps items i"
proof (induction items arbitrary: ps)
  case Nil
  then show ?case by (simp add: quantityAt_Nil)
next
  case (Cons item items)
  let ?ps = "applyItem TIn now ps item"
  from Cons.prems have len: "i < length ?ps" by (simp add: applyItem_length)
  have q: "quantityAt ?ps items i = quantityAt ps items i"
    by (rule quantityAt_ids_cong) (rule applyItem_ids)
  from Cons.IH [OF len] q Cons.prems show ?case
    by (simp add: applyItem_stock quantityAt_Cons)
qed

lemma foldl_reverseItem_TOut_stock:
  "i < length ps \<Longrightarrow>
   p_stock (foldl (reverseItem TOut now) ps items ! i) = p_stock (ps ! i) + quantityAt ps items i"
proof (induction items arbitrary: ps)
  case Nil
  then show ?case by (simp add: quantityAt_Nil)
next
  case (Cons item items)
  let ?ps = "reverseItem TOut now ps item"
  from Cons.prems have len: "i < length ?ps" by (simp add: reverseItem_length)
  have q: "quantityAt ?ps items i = quantityAt ps items i"
    by (rule quantityAt_ids_cong) (rule reverseItem_ids)
  from Cons.IH [OF len] q Cons.prems show ?case
    by (simp add: reverseItem_stock quantityAt_Cons)
qed

lemma applyClamps_TIn: "\<not> applyClamps TIn now ps items i"
  by (induction items arbitrary: ps) simp_all

lemma reverseClamps_TOut: "\<not> reverseClamps TOut now ps items i"
  by (induction items arbitrary: ps) simp_all

text \<open>One subtraction with the floor: the result is at least the difference, and exactly
  the difference unless the floor fired.\<close>

lemma foldl_applyItem_TOut_stock:
  "i < length ps \<Longrightarrow>
   (applyClamps TOut now ps items i \<longrightarrow>
      p_stock (ps ! i) - quantityAt ps items i < p_stock (foldl (applyItem TOut now) ps items ! i)) \<and>
   (\<not> applyClamps TOut now ps items i \<longrightarrow>
      p_stock (foldl (applyItem TOut now) ps items ! i) = p_stock (ps ! i) - quantityAt ps items i)"
proof (induction items arbitrary: ps)
  case Nil
  then show ?case by (simp add: quantityAt_Nil)
next
  case (Cons item items)
  let ?ps = "applyItem TOut now ps item"
  let ?r = "p_stock (foldl (applyItem TOut now) ?ps items ! i)"
  from Cons.prems have len: "i < length ?ps" by (simp add: applyItem_length)
  have q: "quantityAt ?ps items i = quantityAt ps items i"
    by (rule quantityAt_ids_cong) (rule applyItem_ids)
  note ih = Cons.IH [OF len, unfolded q]
  have step: "p_stock (?ps ! i) =
      (if itemIndex ps item = Some i then max 0 (p_stock (ps ! i) - quantity item) else p_stock (ps ! i))"
    using Cons.prems by (simp add: applyItem_stock)
  show ?case
  proof (cases "itemIndex ps item = Some i")
    case False
    with step ih show ?thesis
      by (simp add: quantityAt_Cons decrementClamps_def)
  next
    case True
    show ?thesis
    proof (cases "p_stock (ps ! i) - quantity item < 0")
      case neg: True
      from ih have "p_stock (?ps ! i) - quantityAt ps items i \<le> ?r"
        by (cases "applyClamps TOut now ?ps items i") simp_all
      with step True neg show ?thesis
        by (simp add: quantityAt_Cons decrementClamps_def)
    next
      case nonneg: False
      with step True have "p_stock (?ps ! i) = p_stock (ps ! i) - quantity item" by simp
      with ih True nonneg show ?thesis
        by (auto simp add: quantityAt_Cons decrementClamps_def)
    qed
  qed
qed

lemma foldl_reverseItem_TIn_stock:
  "i < length ps \<Longrightarrow>
   (reverseClamps TIn now ps items i \<longrightarrow>
      p_stock (ps ! i) - quantityAt ps items i < p_stock (foldl (reverseItem TIn now) ps items ! i)) \<and>
   (\<not> reverseClamps TIn now ps items i \<longrightarrow>
      p_stock (foldl (reverseItem TIn now) ps items ! i) = p_stock (ps ! i) - quantityAt ps items i)"
proof (induction items arbitrary: ps)
  case Nil
  then show ?case by (simp add: quantityAt_Nil)
next
  case (Cons item items)
  let ?ps = "reverseItem TIn now ps item"
  let ?r = "p_stock (foldl (reverseItem TIn now) ?ps items ! i)"
  from Cons.prems have len: "i < length ?ps" by (simp add: reverseItem_length)
  have q: "quantityAt ?ps items i = quantityAt ps items i"
    by (rule quantityAt_ids_cong) (rule reverseItem_ids)
  note ih = Cons.IH [OF len, unfolded q]
  have step: "p_stock (?ps ! i) =
      (if itemIndex ps item = Some i then max 0 (p_stock (ps ! i) - quantity item) else p_stock (ps ! i))"
    using Cons.prems by (simp add: reverseItem_stock)
  show ?case
  proof (cases "itemIndex ps item = Some i")
    case False
    with step ih show ?thesis
      by (simp add: quantityAt_Cons decrementClamps_def)
  next
    case True
    show ?thesis
    proof (cases "p_stock (ps ! i) - quantity item < 0")
      case neg: True
      from ih have "p_stock (?ps ! i) - quantityAt ps items i \<le> ?r"
        by (cases "reverseClamps TIn now ?ps items i") simp_all
      with step True neg show ?thesis
        by (simp add: quantityAt_Cons decrementClamps_def)
    next
      case nonneg: False
      with step True have "p_stock (?ps ! i) = p_stock (ps ! i) - quantity item" by simp
      with ih True nonneg show ?thesis
        by (auto simp add: quantityAt_Cons decrementClamps_def)
    qed
  qed
qed

lemma quantityAt_nonneg:
  "\<forall>item\<in>set items. 0 \<le> quantity item \<Longrightarrow> 0 \<le> quantityAt ps items i"
  by (induction items) (simp_all add: quantityAt_Nil quantityAt_Cons)

text \<open>With non-negative quantities and a non-negative stock, the floor fires on a product
  while an \<open>out\<close> effect is applied exactly when the items ask in total for more than the
  product holds.\<close>

lemma applyClamps_iff_total:
  "i < length ps \<Longrightarrow> \<forall>item\<in>set items. 0 \<le> quantity item \<Longrightarrow> 0 \<le> p_stock (ps ! i) \<Longrightarrow>
   applyClamps TOut now ps items i \<longleftrightarrow> p_stock (ps ! i) < quantityAt ps items i"
proof (induction items arbitrary: ps)
  case Nil
  then show ?case by (simp add: quantityAt_Nil)
next
  case (Cons item items)
  let ?ps = "applyItem TOut now ps item"
  from Cons.prems(1) have len: "i < length ?ps" by (simp add: applyItem_length)
  from Cons.prems(2) have q0: "0 \<le> quantity item" and qs: "\<forall>item\<in>set items. 0 \<le> quantity item"
    by simp_all
  have q: "quantityAt ?ps items i = quantityAt ps items i"
    by (rule quantityAt_ids_cong) (rule applyItem_ids)
  have rest0: "0 \<le> quantityAt ps items i" using qs by (rule quantityAt_nonneg)
  have step: "p_stock (?ps ! i) =
      (if itemIndex ps item = Some i then max 0 (p_stock (ps ! i) - quantity item) else p_stock (ps ! i))"
    using Cons.prems(1) by (simp add: applyItem_stock)
  have nonneg: "0 \<le> p_stock (?ps ! i)" using step Cons.prems(3) by simp
  note ih = Cons.IH [OF len qs nonneg, unfolded q]
  show ?case
  proof (cases "itemIndex ps item = Some i")
    case False
    with step ih show ?thesis by (simp add: quantityAt_Cons decrementClamps_def)
  next
    case True
    show ?thesis
    proof (cases "p_stock (ps ! i) - quantity item < 0")
      case neg: True
      with True rest0 show ?thesis by (simp add: quantityAt_Cons decrementClamps_def)
    next
      case nonneg': False
      with step True have "p_stock (?ps ! i) = p_stock (ps ! i) - quantity item" by simp
      with ih True nonneg' show ?thesis
        by (auto simp add: quantityAt_Cons decrementClamps_def)
    qed
  qed
qed

section \<open>The sufficiency check\<close>

lemma canProcessItems_iff:
  "canProcessItems ps items \<longleftrightarrow>
     (\<forall>item\<in>set items. \<exists>product. find (\<lambda>p. p_id p = productId item) ps = Some product \<and>
        quantity item \<le> p_stock product)"
  by (induction items) (auto split: option.splits)

text \<open>
  C5. For an \<open>out\<close> transaction \<open>canProcessTransaction\<close> is true exactly when every item
  asks for at most the current stock of the product it refers to (the first stored
  product with its id); for an \<open>in\<close> transaction it is true whatever the stock. It reads
  the stored products and returns a boolean only: it has no store to return, so it changes
  no state.
\<close>

theorem canProcessTransaction_iff:
  "(t_type transaction = TOut \<longrightarrow>
      canProcessTransaction transaction st =
        (\<forall>item\<in>set (t_items transaction).
           \<exists>product. find (\<lambda>p. p_id p = productId item) (products st) = Some product \<and>
             quantity item \<le> p_stock product)) \<and>
   (t_type transaction = TIn \<longrightarrow> canProcessTransaction transaction st)"
  by (simp add: canProcessTransaction_def canProcessItems_iff)

theorem canProcessTransaction_iff_witness:
  "canProcessTransaction ex_order ex_store \<and>
   \<not> canProcessTransaction ex_order (ex_store\<lparr>products := [ex_product\<lparr>p_stock := 4\<rparr>]\<rparr>) \<and>
   canProcessTransaction (ex_order\<lparr>t_type := TIn\<rparr>) (ex_store\<lparr>products := []\<rparr>)"
  using canProcessTransaction_iff [of ex_order ex_store]
    canProcessTransaction_iff [of ex_order "ex_store\<lparr>products := [ex_product\<lparr>p_stock := 4\<rparr>]\<rparr>"]
    canProcessTransaction_iff [of "ex_order\<lparr>t_type := TIn\<rparr>" "ex_store\<lparr>products := []\<rparr>"]
  by (simp add: ex_store_def ex_order_def ex_product_def)

section \<open>Items whose product is missing\<close>

lemma applyItem_missing: "itemIndex ps item = None \<Longrightarrow> applyItem ty now ps item = ps"
  by (simp add: applyItem_def)

lemma reverseItem_missing: "itemIndex ps item = None \<Longrightarrow> reverseItem ty now ps item = ps"
  by (simp add: reverseItem_def)

lemma foldl_applyItem_skips_missing:
  "map p_id ps = ids \<Longrightarrow>
   foldl (applyItem ty now) ps (filter (\<lambda>item. productId item \<in> set ids) items)
     = foldl (applyItem ty now) ps items"
proof (induction items arbitrary: ps)
  case Nil
  then show ?case by simp
next
  case (Cons item items)
  have ids: "map p_id (applyItem ty now ps item) = ids"
    using Cons.prems by (simp add: applyItem_ids)
  show ?case
  proof (cases "productId item \<in> set ids")
    case True
    with Cons.IH [OF ids] show ?thesis by simp
  next
    case False
    with Cons.prems have "itemIndex ps item = None"
      by (auto simp: itemIndex_None_iff)
    then have "applyItem ty now ps item = ps" by (rule applyItem_missing)
    with False Cons.IH [OF Cons.prems] show ?thesis by simp
  qed
qed

lemma foldl_reverseItem_skips_missing:
  "map p_id ps = ids \<Longrightarrow>
   foldl (reverseItem ty now) ps (filter (\<lambda>item. productId item \<in> set ids) items)
     = foldl (reverseItem ty now) ps items"
proof (induction items arbitrary: ps)
  case Nil
  then show ?case by simp
next
  case (Cons item items)
  have ids: "map p_id (reverseItem ty now ps item) = ids"
    using Cons.prems by (simp add: reverseItem_ids)
  show ?case
  proof (cases "productId item \<in> set ids")
    case True
    with Cons.IH [OF ids] show ?thesis by simp
  next
    case False
    with Cons.prems have "itemIndex ps item = None"
      by (auto simp: itemIndex_None_iff)
    then have "reverseItem ty now ps item = ps" by (rule reverseItem_missing)
    with False Cons.IH [OF Cons.prems] show ?thesis by simp
  qed
qed

lemma canProcessItems_missing:
  "\<exists>item\<in>set items. productId item \<notin> p_id ` set ps \<Longrightarrow> \<not> canProcessItems ps items"
proof -
  assume "\<exists>item\<in>set items. productId item \<notin> p_id ` set ps"
  then obtain item where item: "item \<in> set items" "productId item \<notin> p_id ` set ps" by blast
  then have "find (\<lambda>p. p_id p = productId item) ps = None"
    by (auto simp: find_None_iff image_iff)
  with item(1) show ?thesis unfolding canProcessItems_iff by force
qed

text \<open>
  C10. In both ledger loops an item whose \<open>productId\<close> matches no stored product is
  passed over: the product list is returned as it was for that item, and nothing fails
  (neither function has an error result). The other items are still applied: the effect
  of a transaction is the effect of the same transaction without the items whose product
  is missing, and the stock of every stored product moves by the quantities of the items
  that do refer to it (added exactly; subtracted exactly unless the floor at zero fires
  on that product), whatever other items refer to no product. The sufficiency predicate
  differs: for an \<open>out\<close> transaction with an item whose product is missing it is false.
\<close>

theorem missing_product_is_skipped:
  "(itemIndex ps item = None \<longrightarrow>
      applyItem ty now ps item = ps \<and> reverseItem ty now ps item = ps) \<and>
   updateStockFromTransaction now transaction st
     = updateStockFromTransaction now
         (transaction\<lparr>t_items := filter (\<lambda>item. productId item \<in> set (map p_id (products st)))
                                   (t_items transaction)\<rparr>) st \<and>
   reverseTransactionStockEffects now transaction st
     = reverseTransactionStockEffects now
         (transaction\<lparr>t_items := filter (\<lambda>item. productId item \<in> set (map p_id (products st)))
                                   (t_items transaction)\<rparr>) st \<and>
   (t_status transaction = Completed \<and> i < length (products st) \<longrightarrow>
      (t_type transaction = TIn \<longrightarrow>
         p_stock (products (updateStockFromTransaction now transaction st) ! i)
           = p_stock (products st ! i) + quantityAt (products st) (t_items transaction) i) \<and>
      (t_type transaction = TOut \<and>
       \<not> applyClamps TOut now (products st) (t_items transaction) i \<longrightarrow>
         p_stock (products (updateStockFromTransaction now transaction st) ! i)
           = p_stock (products st ! i) - quantityAt (products st) (t_items transaction) i) \<and>
      (t_type transaction = TOut \<longrightarrow>
         p_stock (products (reverseTransactionStockEffects now transaction st) ! i)
           = p_stock (products st ! i) + quantityAt (products st) (t_items transaction) i) \<and>
      (t_type transaction = TIn \<and>
       \<not> reverseClamps TIn now (products st) (t_items transaction) i \<longrightarrow>
         p_stock (products (reverseTransactionStockEffects now transaction st) ! i)
           = p_stock (products st ! i) - quantityAt (products st) (t_items transaction) i)) \<and>
   (itemIndex ps missing = None \<and> itemIndex ps found = Some i \<longrightarrow>
      p_stock (foldl (applyItem TIn now) ps [missing, found] ! i)
        = p_stock (ps ! i) + quantity found \<and>
      p_stock (foldl (applyItem TOut now) ps [missing, found] ! i)
        = max 0 (p_stock (ps ! i) - quantity found)) \<and>
   (t_type transaction = TOut \<and>
    (\<exists>item\<in>set (t_items transaction). productId item \<notin> p_id ` set (products st)) \<longrightarrow>
      \<not> canProcessTransaction transaction st)"
proof (intro conjI impI)
  assume "itemIndex ps item = None"
  then show "applyItem ty now ps item = ps" and "reverseItem ty now ps item = ps"
    by (simp_all add: applyItem_missing reverseItem_missing)
next
  show "updateStockFromTransaction now transaction st
     = updateStockFromTransaction now
         (transaction\<lparr>t_items := filter (\<lambda>item. productId item \<in> set (map p_id (products st)))
                                   (t_items transaction)\<rparr>) st"
    using foldl_applyItem_skips_missing [OF refl, of "t_type transaction" now "products st" "t_items transaction"]
    by (simp add: updateStockFromTransaction_def)
next
  show "reverseTransactionStockEffects now transaction st
     = reverseTransactionStockEffects now
         (transaction\<lparr>t_items := filter (\<lambda>item. productId item \<in> set (map p_id (products st)))
                                   (t_items transaction)\<rparr>) st"
    using foldl_reverseItem_skips_missing [OF refl, of "t_type transaction" now "products st" "t_items transaction"]
    by (simp add: reverseTransactionStockEffects_def)
next
  assume a: "t_status transaction = Completed \<and> i < length (products st)"
    and ty: "t_type transaction = TIn"
  from a ty show "p_stock (products (updateStockFromTransaction now transaction st) ! i)
           = p_stock (products st ! i) + quantityAt (products st) (t_items transaction) i"
    by (simp add: updateStockFromTransaction_def foldl_applyItem_TIn_stock)
next
  assume a: "t_status transaction = Completed \<and> i < length (products st)"
    and ty: "t_type transaction = TOut \<and>
       \<not> applyClamps TOut now (products st) (t_items transaction) i"
  from a have i: "i < length (products st)" by simp
  from a ty foldl_applyItem_TOut_stock [OF i, of now "t_items transaction"]
  show "p_stock (products (updateStockFromTransaction now transaction st) ! i)
           = p_stock (products st ! i) - quantityAt (products st) (t_items transaction) i"
    by (simp add: updateStockFromTransaction_def)
next
  assume a: "t_status transaction = Completed \<and> i < length (products st)"
    and ty: "t_type transaction = TOut"
  from a ty show "p_stock (products (reverseTransactionStockEffects now transaction st) ! i)
           = p_stock (products st ! i) + quantityAt (products st) (t_items transaction) i"
    by (simp add: reverseTransactionStockEffects_def foldl_reverseItem_TOut_stock)
next
  assume a: "t_status transaction = Completed \<and> i < length (products st)"
    and ty: "t_type transaction = TIn \<and>
       \<not> reverseClamps TIn now (products st) (t_items transaction) i"
  from a have i: "i < length (products st)" by simp
  from a ty foldl_reverseItem_TIn_stock [OF i, of now "t_items transaction"]
  show "p_stock (products (reverseTransactionStockEffects now transaction st) ! i)
           = p_stock (products st ! i) - quantityAt (products st) (t_items transaction) i"
    by (simp add: reverseTransactionStockEffects_def)
next
  assume a: "itemIndex ps missing = None \<and> itemIndex ps found = Some i"
  then have i: "i < length ps" using itemIndex_bound by blast
  from a i show "p_stock (foldl (applyItem TIn now) ps [missing, found] ! i)
        = p_stock (ps ! i) + quantity found"
    by (simp add: applyItem_missing applyItem_stock)
  from a i show "p_stock (foldl (applyItem TOut now) ps [missing, found] ! i)
        = max 0 (p_stock (ps ! i) - quantity found)"
    by (simp add: applyItem_missing applyItem_stock)
next
  assume "t_type transaction = TOut \<and>
    (\<exists>item\<in>set (t_items transaction). productId item \<notin> p_id ` set (products st))"
  then show "\<not> canProcessTransaction transaction st"
    by (simp add: canProcessTransaction_def canProcessItems_missing)
qed

theorem missing_product_is_skipped_witness:
  "applyItem TOut ''d2'' [ex_product] (ex_two_items ! 0) = [ex_product] \<and>
   reverseItem TOut ''d2'' [ex_product] (ex_two_items ! 0) = [ex_product] \<and>
   map p_stock (products (updateStockFromTransaction ''d2''
       (ex_order\<lparr>t_status := Completed, t_items := ex_two_items\<rparr>) ex_store)) = [2] \<and>
   map p_stock (products (reverseTransactionStockEffects ''d2''
       (ex_order\<lparr>t_status := Completed, t_items := ex_two_items\<rparr>) ex_store)) = [8] \<and>
   quantityAt (products ex_store) ex_two_items 0 = 3 \<and>
   \<not> applyClamps TOut ''d2'' (products ex_store) ex_two_items 0 \<and>
   \<not> canProcessTransaction (ex_order\<lparr>t_items := ex_two_items\<rparr>) ex_store"
  using missing_product_is_skipped [where ps = "[ex_product]" and item = "ex_two_items ! 0"
      and ty = TOut and now = "''d2''" and st = ex_store and i = 0
      and missing = "ex_two_items ! 0" and found = "ex_two_items ! 1"
      and transaction = "ex_order\<lparr>t_status := Completed, t_items := ex_two_items\<rparr>"]
   missing_product_is_skipped [where ps = "[ex_product]" and item = "ex_two_items ! 0"
      and ty = TOut and now = "''d2''" and st = ex_store and i = 0
      and missing = "ex_two_items ! 0" and found = "ex_two_items ! 1"
      and transaction = "ex_order\<lparr>t_items := ex_two_items\<rparr>"]
  by (simp add: ex_store_def ex_order_def ex_product_def ex_two_items_def itemIndex_def
      updateStockFromTransaction_def reverseTransactionStockEffects_def quantityAt_def
      applyItem_def reverseItem_def decrementClamps_def Let_def)

section \<open>Inbound transactions\<close>

lemma newTransaction_fields:
  "t_type (newTransaction ty formProducts deliveryCost user newId now values') = ty"
  "t_status (newTransaction ty formProducts deliveryCost user newId now values')
     = (if ty = TIn then Completed else Pending)"
  "t_items (newTransaction ty formProducts deliveryCost user newId now values')
     = transactionItems formProducts values'"
  by (simp_all add: newTransaction_def Let_def)

lemma transactionItems_maps:
  "map productId (transactionItems formProducts values') = map fi_productId (fv_items values')"
  "map quantity (transactionItems formProducts values') = map fi_quantity (fv_items values')"
  by (simp_all add: transactionItems_def comp_def)

lemma addTransaction_inbound:
  assumes "t_type transaction = TIn" and "t_status transaction = Completed"
  shows "transactions (addTransaction now transaction st) = transactions st @ [transaction]"
    and "map p_id (products (addTransaction now transaction st)) = map p_id (products st)"
    and "\<forall>i<length (products st).
           p_stock (products (addTransaction now transaction st) ! i)
             = p_stock (products st ! i) + quantityAt (products st) (t_items transaction) i"
  using assms
  by (simp_all add: addTransaction_def updateStockFromTransaction_def
      foldl_applyItem_ids foldl_applyItem_TIn_stock)

text \<open>
  C6. The form builds an inbound transaction (\<open>type = in\<close>) in status \<open>completed\<close> (an
  \<open>out\<close> transaction in status \<open>pending\<close>), with the product ids and quantities of the
  form's items. With a current user, submitting an inbound form adds that transaction
  with \<open>addTransaction\<close> in the same call: it is appended to the stored transactions and
  the stock of every product rises by the quantities of the items that refer to it, once
  each. The same holds of \<open>addTransaction\<close> for every transaction of type \<open>in\<close> and status
  \<open>completed\<close>; products keep their positions and ids. (An inbound quantity of 10 on a
  product with stock 0 leaves stock 10.)
\<close>

theorem inbound_stock_applied_at_creation:
  "t_type (newTransaction TIn formProducts deliveryCost user newId now values') = TIn \<and>
   t_status (newTransaction TIn formProducts deliveryCost user newId now values') = Completed \<and>
   t_status (newTransaction TOut formProducts deliveryCost user newId now values') = Pending \<and>
   map productId (t_items (newTransaction TIn formProducts deliveryCost user newId now values'))
     = map fi_productId (fv_items values') \<and>
   map quantity (t_items (newTransaction TIn formProducts deliveryCost user newId now values'))
     = map fi_quantity (fv_items values') \<and>
   onSubmit TIn formProducts deliveryCost (Some user) newId now values' st
     = (True, addTransaction now
                (newTransaction TIn formProducts deliveryCost user newId now values') st) \<and>
   transactions (snd (onSubmit TIn formProducts deliveryCost (Some user) newId now values' st))
     = transactions st @ [newTransaction TIn formProducts deliveryCost user newId now values'] \<and>
   (\<forall>i<length (products st).
      p_stock (products (snd (onSubmit TIn formProducts deliveryCost (Some user) newId now values' st)) ! i)
        = p_stock (products st ! i)
          + quantityAt (products st) (transactionItems formProducts values') i) \<and>
   (t_type transaction = TIn \<and> t_status transaction = Completed \<longrightarrow>
      transactions (addTransaction now transaction st) = transactions st @ [transaction] \<and>
      map p_id (products (addTransaction now transaction st)) = map p_id (products st) \<and>
      (\<forall>i<length (products st).
         p_stock (products (addTransaction now transaction st) ! i)
           = p_stock (products st ! i) + quantityAt (products st) (t_items transaction) i))"
proof -
  let ?new = "newTransaction TIn formProducts deliveryCost user newId now values'"
  have ty: "t_type ?new = TIn" and status: "t_status ?new = Completed"
    and items: "t_items ?new = transactionItems formProducts values'"
    by (simp_all add: newTransaction_fields)
  have submit: "onSubmit TIn formProducts deliveryCost (Some user) newId now values' st
      = (True, addTransaction now ?new st)"
    by (simp add: onSubmit_def)
  note added = addTransaction_inbound [OF ty status, where now = now and st = st, unfolded items]
  have general: "t_type transaction = TIn \<and> t_status transaction = Completed \<longrightarrow>
      transactions (addTransaction now transaction st) = transactions st @ [transaction] \<and>
      map p_id (products (addTransaction now transaction st)) = map p_id (products st) \<and>
      (\<forall>i<length (products st).
         p_stock (products (addTransaction now transaction st) ! i)
           = p_stock (products st ! i) + quantityAt (products st) (t_items transaction) i)"
    using addTransaction_inbound [where transaction = transaction and now = now and st = st] by blast
  show ?thesis
    unfolding submit snd_conv
    using ty status items added general
    by (simp add: newTransaction_fields transactionItems_maps)
qed

theorem inbound_stock_applied_at_creation_witness:
  "t_status (newTransaction TIn [ex_product] 0 ex_admin ''T2'' ''d2'' ex_inbound_form) = Completed \<and>
   fst (onSubmit TIn [ex_product] 0 (Some ex_admin) ''T2'' ''d2'' ex_inbound_form
      (ex_store\<lparr>products := [ex_product\<lparr>p_stock := 0\<rparr>]\<rparr>)) \<and>
   map p_stock (products (snd (onSubmit TIn [ex_product] 0 (Some ex_admin) ''T2'' ''d2'' ex_inbound_form
      (ex_store\<lparr>products := [ex_product\<lparr>p_stock := 0\<rparr>]\<rparr>)))) = [10] \<and>
   quantityAt [ex_product\<lparr>p_stock := 0\<rparr>] (transactionItems [ex_product] ex_inbound_form) 0 = 10"
  using inbound_stock_applied_at_creation [where formProducts = "[ex_product]" and deliveryCost = 0
      and user = ex_admin and newId = "''T2''" and now = "''d2''" and values' = ex_inbound_form
      and st = "ex_store\<lparr>products := [ex_product\<lparr>p_stock := 0\<rparr>]\<rparr>"
      and transaction = "newTransaction TIn [ex_product] 0 ex_admin ''T2'' ''d2'' ex_inbound_form"]
  by (simp add: ex_store_def ex_product_def ex_inbound_form_def ex_admin_def
      newTransaction_def transactionItems_def priceOrZero_def calculateTotal_def
      onSubmit_def addTransaction_def
      updateStockFromTransaction_def applyItem_def itemIndex_def quantityAt_def Let_def)

section \<open>Applying and then reversing an effect\<close>

text \<open>The round trip on the product lists, one type at a time.\<close>

lemma round_trip_TOut:
  assumes i: "i < length ps"
  shows "(applyClamps TOut now ps items i \<longrightarrow>
            p_stock (ps ! i)
              < p_stock (foldl (reverseItem TOut now') (foldl (applyItem TOut now) ps items) items ! i)) \<and>
         (\<not> applyClamps TOut now ps items i \<longrightarrow>
            p_stock (foldl (reverseItem TOut now') (foldl (applyItem TOut now) ps items) items ! i)
              = p_stock (ps ! i))"
proof -
  let ?ps1 = "foldl (applyItem TOut now) ps items"
  have len1: "i < length ?ps1" using i by (simp add: foldl_applyItem_length)
  have q: "quantityAt ?ps1 items i = quantityAt ps items i"
    by (rule quantityAt_ids_cong) (rule foldl_applyItem_ids)
  have undo: "p_stock (foldl (reverseItem TOut now') ?ps1 items ! i)
      = p_stock (?ps1 ! i) + quantityAt ps items i"
    using foldl_reverseItem_TOut_stock [OF len1, of "now'" items] q by simp
  from foldl_applyItem_TOut_stock [OF i, of now items] undo show ?thesis
    by auto
qed

lemma round_trip_TIn:
  assumes i: "i < length ps"
  shows "(reverseClamps TIn now' (foldl (applyItem TIn now) ps items) items i \<longrightarrow>
            p_stock (ps ! i)
              < p_stock (foldl (reverseItem TIn now') (foldl (applyItem TIn now) ps items) items ! i)) \<and>
         (\<not> reverseClamps TIn now' (foldl (applyItem TIn now) ps items) items i \<longrightarrow>
            p_stock (foldl (reverseItem TIn now') (foldl (applyItem TIn now) ps items) items ! i)
              = p_stock (ps ! i))"
proof -
  let ?ps1 = "foldl (applyItem TIn now) ps items"
  have len1: "i < length ?ps1" using i by (simp add: foldl_applyItem_length)
  have q: "quantityAt ?ps1 items i = quantityAt ps items i"
    by (rule quantityAt_ids_cong) (rule foldl_applyItem_ids)
  have there: "p_stock (?ps1 ! i) = p_stock (ps ! i) + quantityAt ps items i"
    by (rule foldl_applyItem_TIn_stock [OF i])
  from foldl_reverseItem_TIn_stock [OF len1, of "now'" items] there q show ?thesis
    by auto
qed

text \<open>With at most one item per product, the floor does not fire on a product whose
  stock covers the quantity asked of it.\<close>

lemma itemIndex_same_product:
  "itemIndex ps a = Some i \<Longrightarrow> itemIndex ps b = Some i \<Longrightarrow> productId a = productId b"
  unfolding itemIndex_def by (auto dest!: findIndex_Some_D)

lemma applyClamps_distinct:
  "distinct (map productId items) \<Longrightarrow>
   \<forall>item\<in>set items. itemIndex ps item = Some i \<longrightarrow> quantity item \<le> p_stock (ps ! i) \<Longrightarrow>
   \<not> applyClamps TOut now ps items i"
proof (induction items arbitrary: ps)
  case Nil
  then show ?case by simp
next
  case (Cons item items)
  let ?ps = "applyItem TOut now ps item"
  have idx: "itemIndex ?ps b = itemIndex ps b" for b
    by (rule itemIndex_ids_cong) (rule applyItem_ids)
  from Cons.prems(2) have here: "\<not> decrementClamps ps item i"
    by (auto simp: decrementClamps_def)
  have rest: "\<forall>b\<in>set items. itemIndex ?ps b = Some i \<longrightarrow> quantity b \<le> p_stock (?ps ! i)"
  proof (intro ballI impI)
    fix b assume b: "b \<in> set items" and bi: "itemIndex ?ps b = Some i"
    then have bi': "itemIndex ps b = Some i" by (simp add: idx)
    then have i: "i < length ps" by (rule itemIndex_bound)
    from Cons.prems(1) b have "productId b \<noteq> productId item" by (auto simp: image_iff)
    with bi' have "itemIndex ps item \<noteq> Some i"
      using itemIndex_same_product by blast
    then have "p_stock (?ps ! i) = p_stock (ps ! i)"
      using i by (simp add: applyItem_stock)
    with Cons.prems(2) b bi' show "quantity b \<le> p_stock (?ps ! i)" by simp
  qed
  from Cons.prems(1) have "distinct (map productId items)" by simp
  from Cons.IH [OF this rest] here show ?case by simp
qed

text \<open>
  C3, as the code has it. Apply the stock effect of a completed transaction and then
  reverse it. For every product (every index \<open>i\<close> of the product list): when the floor
  at zero fired on that product at no item, neither while applying nor while reversing,
  its stock after the reversal is exactly its stock before the effect; when the floor
  did fire on it, its stock after the reversal is greater than its stock before the
  effect. Reversing an \<open>out\<close> transaction never floors. Applying an \<open>out\<close> transaction
  with non-negative quantities to a product with non-negative stock floors exactly when
  the items that refer to the product ask in total for more than its stock; when the
  items refer to pairwise different products, that is when one item asks for more than
  the stock of its product. The statement needs no assumption that the referenced
  products exist.
\<close>

theorem stock_round_trip:
  "(t_status transaction = Completed \<and> i < length (products st) \<longrightarrow>
      (let st1 = updateStockFromTransaction now transaction st;
           st2 = reverseTransactionStockEffects now' transaction st1;
           clamped = (applyClamps (t_type transaction) now (products st) (t_items transaction) i \<or>
                      reverseClamps (t_type transaction) now' (products st1) (t_items transaction) i)
       in (\<not> clamped \<longrightarrow> p_stock (products st2 ! i) = p_stock (products st ! i)) \<and>
          (clamped \<longrightarrow> p_stock (products st ! i) < p_stock (products st2 ! i)))) \<and>
   \<not> reverseClamps TOut now' (products (updateStockFromTransaction now transaction st))
        (t_items transaction) i \<and>
   (i < length (products st) \<and> 0 \<le> p_stock (products st ! i) \<and>
    (\<forall>item\<in>set (t_items transaction). 0 \<le> quantity item) \<longrightarrow>
      applyClamps TOut now (products st) (t_items transaction) i
        = (p_stock (products st ! i) < quantityAt (products st) (t_items transaction) i)) \<and>
   (distinct (map productId (t_items transaction)) \<and>
    (\<forall>item\<in>set (t_items transaction).
        itemIndex (products st) item = Some i \<longrightarrow> quantity item \<le> p_stock (products st ! i)) \<longrightarrow>
      \<not> applyClamps TOut now (products st) (t_items transaction) i)"
proof (intro conjI impI)
  assume a: "t_status transaction = Completed \<and> i < length (products st)"
  then have i: "i < length (products st)" by simp
  show "let st1 = updateStockFromTransaction now transaction st;
           st2 = reverseTransactionStockEffects now' transaction st1;
           clamped = (applyClamps (t_type transaction) now (products st) (t_items transaction) i \<or>
                      reverseClamps (t_type transaction) now' (products st1) (t_items transaction) i)
       in (\<not> clamped \<longrightarrow> p_stock (products st2 ! i) = p_stock (products st ! i)) \<and>
          (clamped \<longrightarrow> p_stock (products st ! i) < p_stock (products st2 ! i))"
  proof (cases "t_type transaction")
    case TIn
    with a round_trip_TIn [OF i, of "now'" now "t_items transaction"] show ?thesis
      by (simp add: Let_def updateStockFromTransaction_def reverseTransactionStockEffects_def
          applyClamps_TIn)
  next
    case TOut
    with a round_trip_TOut [OF i, of now "t_items transaction" "now'"] show ?thesis
      by (simp add: Let_def updateStockFromTransaction_def reverseTransactionStockEffects_def
          reverseClamps_TOut)
  qed
next
  show "\<not> reverseClamps TOut now' (products (updateStockFromTransaction now transaction st))
           (t_items transaction) i"
    by (rule reverseClamps_TOut)
next
  assume "i < length (products st) \<and> 0 \<le> p_stock (products st ! i) \<and>
    (\<forall>item\<in>set (t_items transaction). 0 \<le> quantity item)"
  then show "applyClamps TOut now (products st) (t_items transaction) i
        = (p_stock (products st ! i) < quantityAt (products st) (t_items transaction) i)"
    by (simp add: applyClamps_iff_total)
next
  assume "distinct (map productId (t_items transaction)) \<and>
    (\<forall>item\<in>set (t_items transaction).
        itemIndex (products st) item = Some i \<longrightarrow> quantity item \<le> p_stock (products st ! i))"
  then show "\<not> applyClamps TOut now (products st) (t_items transaction) i"
    by (simp add: applyClamps_distinct)
qed

theorem stock_round_trip_witness:
  "map p_stock (products (reverseTransactionStockEffects ''d3'' (ex_completed [5])
      (updateStockFromTransaction ''d2'' (ex_completed [5]) ex_store))) = [5] \<and>
   \<not> applyClamps TOut ''d2'' (products ex_store) (t_items (ex_completed [5])) 0 \<and>
   quantityAt (products ex_store) (t_items (ex_completed [5])) 0 = 5 \<and>
   map p_stock (products (reverseTransactionStockEffects ''d3'' (ex_completed [7])
      (updateStockFromTransaction ''d2'' (ex_completed [7]) ex_store))) = [7] \<and>
   applyClamps TOut ''d2'' (products ex_store) (t_items (ex_completed [7])) 0 \<and>
   quantityAt (products ex_store) (t_items (ex_completed [2, 3])) 0 = 5 \<and>
   map p_stock (products (reverseTransactionStockEffects ''d3'' (ex_completed [2, 3])
      (updateStockFromTransaction ''d2'' (ex_completed [2, 3]) ex_store))) = [5]"
  using stock_round_trip [where transaction = "ex_completed [5]" and st = ex_store and i = 0
      and now = "''d2''" and now' = "''d3''"]
    stock_round_trip [where transaction = "ex_completed [7]" and st = ex_store and i = 0
      and now = "''d2''" and now' = "''d3''"]
    stock_round_trip [where transaction = "ex_completed [2, 3]" and st = ex_store and i = 0
      and now = "''d2''" and now' = "''d3''"]
  by (simp add: ex_completed_def ex_store_def ex_order_def ex_product_def itemIndex_def
      updateStockFromTransaction_def reverseTransactionStockEffects_def quantityAt_def
      applyItem_def reverseItem_def decrementClamps_def Let_def)

text \<open>
  The claim's own condition for an \<open>out\<close> transaction, that every affected product's
  stock is at least the item quantity before the effect is applied, does not exclude the
  floor: two items of 3 on one product with stock 5 each ask for no more than the stock,
  the product exists, and the stock after applying and reversing is 6, not 5.
\<close>

theorem stock_round_trip_counterexample:
  "t_type (ex_completed [3, 3]) = TOut \<and> t_status (ex_completed [3, 3]) = Completed \<and>
   list_all (\<lambda>item. itemIndex (products ex_store) item = Some 0 \<and>
                     quantity item \<le> p_stock (products ex_store ! 0))
     (t_items (ex_completed [3, 3])) \<and>
   map p_stock (products ex_store) = [5] \<and>
   map p_stock (products (reverseTransactionStockEffects ''d3'' (ex_completed [3, 3])
      (updateStockFromTransaction ''d2'' (ex_completed [3, 3]) ex_store))) = [6]"
  by (simp add: ex_completed_def ex_store_def ex_order_def ex_product_def itemIndex_def
      updateStockFromTransaction_def reverseTransactionStockEffects_def
      applyItem_def reverseItem_def Let_def)

section \<open>One stock effect per completion\<close>

lemma findIndex_append_fresh:
  "findIndex P xs = None \<Longrightarrow> P x \<Longrightarrow> findIndex P (xs @ [x]) = Some (length xs)"
  by (induction xs) (auto split: if_splits)

lemma ledger_keeps_transactions:
  "transactions (updateStockFromTransaction now t st) = transactions st"
  "transactions (reverseTransactionStockEffects now t st) = transactions st"
  by (simp_all add: updateStockFromTransaction_def reverseTransactionStockEffects_def)

lemma runLedgerCall_products_cong:
  "products a = products b \<Longrightarrow> products (runLedgerCall now a c) = products (runLedgerCall now b c)"
  by (cases c) (simp_all add: updateStockFromTransaction_def reverseTransactionStockEffects_def)

lemma foldl_runLedgerCall_products_cong:
  "products a = products b \<Longrightarrow>
   products (foldl (runLedgerCall now) a cs) = products (foldl (runLedgerCall now) b cs)"
proof (induction cs arbitrary: a b)
  case Nil
  then show ?case by simp
next
  case (Cons c cs)
  from Cons.prems have "products (runLedgerCall now a c) = products (runLedgerCall now b c)"
    by (rule runLedgerCall_products_cong)
  from Cons.IH [OF this] show ?case by simp
qed

lemma netApplied_append: "netApplied (xs @ ys) = netApplied xs + netApplied ys"
  by (simp add: netApplied_def)

text \<open>One call of \<open>updateTransaction\<close> on a stored transaction.\<close>

lemma updateTransaction_step:
  assumes "findIndex (\<lambda>t. t_id t = t_id u) (transactions st) = Some i"
  shows "transactions (snd (updateTransaction now u st)) = (transactions st)[i := u]"
    and "products (snd (updateTransaction now u st))
           = products (foldl (runLedgerCall now) st (updateTransactionCalls u st))"
    and "fst (updateTransaction now u st)"
  using assms
  by (simp_all add: updateTransaction_def updateTransactionCalls_def Let_def
      ledger_keeps_transactions)

lemma updateTransactionCalls_cases:
  assumes "findIndex (\<lambda>t. t_id t = t_id u) (transactions st) = Some i"
  shows "updateTransactionCalls u st =
     (if t_status (transactions st ! i) \<noteq> Completed \<and> t_status u = Completed then [ApplyEffect u]
      else if t_status (transactions st ! i) = Completed \<and> t_status u \<noteq> Completed
      then [ReverseEffect (transactions st ! i)] else [])"
  using assms by (simp add: updateTransactionCalls_def Let_def)

lemma list_update_keeps_findIndex:
  assumes "i < length xs" and "P y = P (xs ! i)"
  shows "findIndex P (xs[i := y]) = findIndex P xs"
proof (rule findIndex_map_cong)
  from assms show "map P (xs[i := y]) = map P xs"
    by (simp add: map_update list_update_same_conv)
qed

text \<open>Either kind of request is a call of \<open>updateTransaction\<close> with a transaction that has the
  id, the type and the items of the stored one and the requested status.\<close>

lemma request_as_updateTransaction:
  assumes idx: "findIndex (\<lambda>x. t_id x = t_id t) (transactions st) = Some i"
    and items: "t_items (transactions st ! i) = t_items t"
    and type: "t_type (transactions st ! i) = t_type t"
    and r: "statusUpdateOf t r"
  obtains u where "performUpdate now r st = updateTransaction now u st"
    and "requestCalls now r st = updateTransactionCalls u st"
    and "t_id u = t_id t" and "t_items u = t_items t" and "t_type u = t_type t"
    and "t_status u = requestStatus r"
proof (cases r)
  case (ViaUpdateTransaction u)
  with r that [of u] show ?thesis by simp
next
  case (ViaUpdateTransactionStatus k s)
  with r have k: "k = t_id t" by simp
  let ?u = "(transactions st ! i)\<lparr>t_status := s, t_updatedAt := now\<rparr>"
  from findIndex_Some_D [OF idx] have "t_id (transactions st ! i) = t_id t" by simp
  with idx items type k ViaUpdateTransactionStatus that [of ?u] show ?thesis
    by (simp add: updateTransactionStatus_def)
qed

lemma performUpdate_step:
  assumes idx: "findIndex (\<lambda>x. t_id x = t_id t) (transactions st) = Some i"
    and items: "t_items (transactions st ! i) = t_items t"
    and type: "t_type (transactions st ! i) = t_type t"
    and r: "statusUpdateOf t r"
  shows "findIndex (\<lambda>x. t_id x = t_id t) (transactions (snd (performUpdate now r st))) = Some i"
    and "t_items (transactions (snd (performUpdate now r st)) ! i) = t_items t"
    and "t_type (transactions (snd (performUpdate now r st)) ! i) = t_type t"
    and "t_status (transactions (snd (performUpdate now r st)) ! i) = requestStatus r"
    and "products (snd (performUpdate now r st))
           = products (foldl (runLedgerCall now) st (requestCalls now r st))"
    and "netApplied (requestCalls now r st)
           + (if t_status (transactions st ! i) = Completed then 1 else 0)
           = (if requestStatus r = Completed then 1 else 0)"
    and "\<forall>c\<in>set (requestCalls now r st).
           t_items (callTransaction c) = t_items t \<and> t_type (callTransaction c) = t_type t \<and>
           t_status (callTransaction c) = Completed"
proof -
  from request_as_updateTransaction [OF idx items type r, of now]
  obtain u where u: "performUpdate now r st = updateTransaction now u st"
    "requestCalls now r st = updateTransactionCalls u st"
    "t_id u = t_id t" "t_items u = t_items t" "t_type u = t_type t"
    "t_status u = requestStatus r"
    by blast
  from idx u(3) have idx': "findIndex (\<lambda>x. t_id x = t_id u) (transactions st) = Some i" by simp
  from findIndex_Some_D [OF idx] have i: "i < length (transactions st)"
    and id: "t_id (transactions st ! i) = t_id t" by simp_all
  have txs: "transactions (snd (performUpdate now r st)) = (transactions st)[i := u]"
    unfolding u(1) by (rule updateTransaction_step(1) [OF idx'])
  show "findIndex (\<lambda>x. t_id x = t_id t) (transactions (snd (performUpdate now r st))) = Some i"
    unfolding txs using list_update_keeps_findIndex [of i "transactions st" "\<lambda>x. t_id x = t_id t" u]
      i id u(3) idx by simp
  from i show "t_items (transactions (snd (performUpdate now r st)) ! i) = t_items t"
    unfolding txs by (simp add: u(4))
  from i show "t_type (transactions (snd (performUpdate now r st)) ! i) = t_type t"
    unfolding txs by (simp add: u(5))
  from i show "t_status (transactions (snd (performUpdate now r st)) ! i) = requestStatus r"
    unfolding txs by (simp add: u(6))
  show "products (snd (performUpdate now r st))
           = products (foldl (runLedgerCall now) st (requestCalls now r st))"
    unfolding u(1) u(2) by (rule updateTransaction_step(2) [OF idx'])
  note calls = updateTransactionCalls_cases [OF idx']
  show "netApplied (requestCalls now r st)
           + (if t_status (transactions st ! i) = Completed then 1 else 0)
           = (if requestStatus r = Completed then 1 else 0)"
    unfolding u(2) calls u(6) by (simp add: netApplied_def)
  show "\<forall>c\<in>set (requestCalls now r st).
           t_items (callTransaction c) = t_items t \<and> t_type (callTransaction c) = t_type t \<and>
           t_status (callTransaction c) = Completed"
    unfolding u(2) calls using items type u(4) u(5) by simp
qed

lemma performUpdates_lifecycle:
  assumes "findIndex (\<lambda>x. t_id x = t_id t) (transactions st) = Some i"
    and "t_items (transactions st ! i) = t_items t"
    and "t_type (transactions st ! i) = t_type t"
    and "\<forall>r\<in>set rs. statusUpdateOf t r"
  shows "findIndex (\<lambda>x. t_id x = t_id t) (transactions (performUpdates now rs st)) = Some i \<and>
     t_status (transactions (performUpdates now rs st) ! i)
       = last (t_status (transactions st ! i) # map requestStatus rs) \<and>
     netApplied (updatesCalls now rs st)
         + (if t_status (transactions st ! i) = Completed then 1 else 0)
       = (if last (t_status (transactions st ! i) # map requestStatus rs) = Completed then 1 else 0) \<and>
     (\<forall>c\<in>set (updatesCalls now rs st).
         t_items (callTransaction c) = t_items t \<and> t_type (callTransaction c) = t_type t \<and>
         t_status (callTransaction c) = Completed) \<and>
     products (performUpdates now rs st)
       = products (foldl (runLedgerCall now) st (updatesCalls now rs st))"
  using assms
proof (induction rs arbitrary: st)
  case Nil
  then show ?case by (simp add: netApplied_def)
next
  case (Cons r rs)
  let ?st = "snd (performUpdate now r st)"
  from Cons.prems(4) have r: "statusUpdateOf t r" and rs: "\<forall>r\<in>set rs. statusUpdateOf t r"
    by simp_all
  note step = performUpdate_step [OF Cons.prems(1-3) r, of now]
  note ih = Cons.IH [OF step(1) step(2) step(3) rs, unfolded step(4)]
  have prod: "products (performUpdates now rs ?st)
      = products (foldl (runLedgerCall now) (foldl (runLedgerCall now) st (requestCalls now r st))
          (updatesCalls now rs ?st))"
    using ih foldl_runLedgerCall_products_cong [OF step(5), of now "updatesCalls now rs ?st"]
    by simp
  have lastq: "last (t_status (transactions st ! i) # map requestStatus (r # rs))
      = last (requestStatus r # map requestStatus rs)"
    by simp
  from ih have c1: "findIndex (\<lambda>x. t_id x = t_id t)
      (transactions (performUpdates now (r # rs) st)) = Some i"
    and c2: "t_status (transactions (performUpdates now (r # rs) st) ! i)
      = last (requestStatus r # map requestStatus rs)"
    by simp_all
  from ih step(6) have c3: "netApplied (updatesCalls now (r # rs) st)
         + (if t_status (transactions st ! i) = Completed then 1 else 0)
       = (if last (requestStatus r # map requestStatus rs) = Completed then 1 else 0)"
    by (simp add: netApplied_append)
  from ih step(7) have c4: "\<forall>c\<in>set (updatesCalls now (r # rs) st).
         t_items (callTransaction c) = t_items t \<and> t_type (callTransaction c) = t_type t \<and>
         t_status (callTransaction c) = Completed"
    by auto
  from prod have c5: "products (performUpdates now (r # rs) st)
       = products (foldl (runLedgerCall now) st (updatesCalls now (r # rs) st))"
    by simp
  from c1 c2 c3 c4 c5 show ?case
    unfolding lastq by blast
qed


lemma addTransaction_start:
  assumes "findIndex (\<lambda>x. t_id x = t_id t) (transactions st) = None"
  shows "findIndex (\<lambda>x. t_id x = t_id t) (transactions (addTransaction now t st))
           = Some (length (transactions st))"
    and "transactions (addTransaction now t st) ! length (transactions st) = t"
    and "products (addTransaction now t st)
           = products (foldl (runLedgerCall now) st (addTransactionCalls t))"
    and "netApplied (addTransactionCalls t) = (if t_status t = Completed then 1 else 0)"
proof -
  have txs: "transactions (addTransaction now t st) = transactions st @ [t]"
    by (simp add: addTransaction_def Let_def ledger_keeps_transactions)
  from assms show "findIndex (\<lambda>x. t_id x = t_id t) (transactions (addTransaction now t st))
           = Some (length (transactions st))"
    unfolding txs by (simp add: findIndex_append_fresh)
  show "transactions (addTransaction now t st) ! length (transactions st) = t"
    unfolding txs by simp
  show "products (addTransaction now t st)
           = products (foldl (runLedgerCall now) st (addTransactionCalls t))"
    by (simp add: addTransaction_def Let_def addTransactionCalls_def updateStockFromTransaction_def)
  show "netApplied (addTransactionCalls t) = (if t_status t = Completed then 1 else 0)"
    by (simp add: addTransactionCalls_def netApplied_def)
qed

lemma updateTransaction_products:
  assumes "findIndex (\<lambda>x. t_id x = t_id upd) (transactions st) = Some index"
  shows "products (snd (updateTransaction now upd st)) =
     (if t_status (transactions st ! index) \<noteq> Completed \<and> t_status upd = Completed
      then products (updateStockFromTransaction now upd st)
      else if t_status (transactions st ! index) = Completed \<and> t_status upd \<noteq> Completed
      then products (reverseTransactionStockEffects now (transactions st ! index) st)
      else products st)"
  using assms by (simp add: updateTransaction_def Let_def)

text \<open>What one status update does to the products of the store.\<close>

lemma performUpdate_products:
  assumes idx: "findIndex (\<lambda>x. t_id x = t_id t) (transactions st) = Some k"
    and items: "t_items (transactions st ! k) = t_items t"
    and type: "t_type (transactions st ! k) = t_type t"
    and r: "statusUpdateOf t r"
  shows "products (snd (performUpdate now r st)) =
     (if t_status (transactions st ! k) \<noteq> Completed \<and> requestStatus r = Completed
      then foldl (applyItem (t_type t) now) (products st) (t_items t)
      else if t_status (transactions st ! k) = Completed \<and> requestStatus r \<noteq> Completed
      then foldl (reverseItem (t_type t) now) (products st) (t_items t)
      else products st)"
proof -
  from request_as_updateTransaction [OF idx items type r, of now]
  obtain u where u: "performUpdate now r st = updateTransaction now u st"
    "t_id u = t_id t" "t_items u = t_items t" "t_type u = t_type t"
    "t_status u = requestStatus r"
    by blast
  from idx u(2) have idx': "findIndex (\<lambda>x. t_id x = t_id u) (transactions st) = Some k" by simp
  show ?thesis
    unfolding u(1) updateTransaction_products [OF idx']
    using items type u(3) u(4) u(5)
    by (simp add: updateStockFromTransaction_def reverseTransactionStockEffects_def)
qed

lemma foldl_applyItem_TOut_nonneg_at:
  "i < length ps \<Longrightarrow> 0 \<le> p_stock (ps ! i) \<Longrightarrow>
   0 \<le> p_stock (foldl (applyItem TOut now) ps items ! i)"
proof (induction items arbitrary: ps)
  case Nil
  then show ?case by simp
next
  case (Cons item items)
  let ?ps = "applyItem TOut now ps item"
  from Cons.prems have "i < length ?ps" and "0 \<le> p_stock (?ps ! i)"
    by (simp_all add: applyItem_length applyItem_stock)
  from Cons.IH [OF this] show ?case by simp
qed

text \<open>
  The stock of one product along the life of an \<open>out\<close> transaction, relative to the
  products \<open>ps0\<close> the transaction was added to: while the transaction is completed the
  stock is what one application to \<open>ps0\<close> leaves; otherwise the products are still \<open>ps0\<close>,
  or the stock is that value plus the total quantity.
\<close>

lemma lifecycle_stock_step:
  assumes idx: "findIndex (\<lambda>x. t_id x = t_id t) (transactions st) = Some k"
    and items: "t_items (transactions st ! k) = t_items t"
    and type: "t_type (transactions st ! k) = t_type t"
    and out: "t_type t = TOut"
    and r: "statusUpdateOf t r"
    and q: "\<forall>item\<in>set (t_items t). 0 \<le> quantity item"
    and i: "i < length ps0" and s0: "0 \<le> p_stock (ps0 ! i)"
    and ids: "map p_id (products st) = map p_id ps0"
    and phase: "if t_status (transactions st ! k) = Completed
      then p_stock (products st ! i) = p_stock (foldl (applyItem TOut now) ps0 (t_items t) ! i)
      else products st = ps0 \<or>
           p_stock (products st ! i)
             = p_stock (foldl (applyItem TOut now) ps0 (t_items t) ! i) + quantityAt ps0 (t_items t) i"
  shows "map p_id (products (snd (performUpdate now r st))) = map p_id ps0"
    and "if requestStatus r = Completed
      then p_stock (products (snd (performUpdate now r st)) ! i)
             = p_stock (foldl (applyItem TOut now) ps0 (t_items t) ! i)
      else products (snd (performUpdate now r st)) = ps0 \<or>
           p_stock (products (snd (performUpdate now r st)) ! i)
             = p_stock (foldl (applyItem TOut now) ps0 (t_items t) ! i) + quantityAt ps0 (t_items t) i"
proof -
  define a where "a = p_stock (foldl (applyItem TOut now) ps0 (t_items t) ! i)"
  define Q where "Q = quantityAt ps0 (t_items t) i"
  let ?ps = "products st"
  note ps' = performUpdate_products [OF idx items type r, of now, unfolded out]
  have len: "i < length ?ps" using i ids by (metis length_map)
  have Qst: "quantityAt ?ps (t_items t) i = Q"
    unfolding Q_def by (rule quantityAt_ids_cong) (rule ids)
  have a0: "0 \<le> a" unfolding a_def by (rule foldl_applyItem_TOut_nonneg_at [OF i s0])
  have Q0: "0 \<le> Q" unfolding Q_def using q by (rule quantityAt_nonneg)
  show "map p_id (products (snd (performUpdate now r st))) = map p_id ps0"
    unfolding ps' by (simp add: ids foldl_applyItem_ids foldl_reverseItem_ids)
  have apply_after_reverse: "p_stock (foldl (applyItem TOut now) ?ps (t_items t) ! i) = a"
    if st: "p_stock (?ps ! i) = a + Q"
  proof -
    from st a0 have "0 \<le> p_stock (?ps ! i)" using Q0 by simp
    from applyClamps_iff_total [OF len q this, of now] st Qst a0
    have "\<not> applyClamps TOut now ?ps (t_items t) i" by simp
    with foldl_applyItem_TOut_stock [OF len, of now "t_items t"] st Qst show ?thesis by simp
  qed
  have reverse_stock: "p_stock (foldl (reverseItem TOut now) ?ps (t_items t) ! i)
      = p_stock (?ps ! i) + Q"
    using foldl_reverseItem_TOut_stock [OF len, of now "t_items t"] Qst by simp
  show "if requestStatus r = Completed
      then p_stock (products (snd (performUpdate now r st)) ! i)
             = p_stock (foldl (applyItem TOut now) ps0 (t_items t) ! i)
      else products (snd (performUpdate now r st)) = ps0 \<or>
           p_stock (products (snd (performUpdate now r st)) ! i)
             = p_stock (foldl (applyItem TOut now) ps0 (t_items t) ! i) + quantityAt ps0 (t_items t) i"
  proof (cases "t_status (transactions st ! k) = Completed")
    case True
    with phase have cur: "p_stock (?ps ! i) = a" by (simp add: a_def)
    show ?thesis
    proof (cases "requestStatus r = Completed")
      case True
      with \<open>t_status (transactions st ! k) = Completed\<close> cur show ?thesis
        unfolding ps' by (simp add: a_def)
    next
      case False
      with \<open>t_status (transactions st ! k) = Completed\<close> cur reverse_stock show ?thesis
        unfolding ps' by (simp add: a_def Q_def)
    qed
  next
    case False
    with phase have cur: "?ps = ps0 \<or> p_stock (?ps ! i) = a + Q"
      by (simp add: a_def Q_def)
    show ?thesis
    proof (cases "requestStatus r = Completed")
      case True
      from cur have "p_stock (foldl (applyItem TOut now) ?ps (t_items t) ! i) = a"
      proof
        assume "?ps = ps0"
        then show ?thesis by (simp add: a_def)
      next
        assume "p_stock (?ps ! i) = a + Q"
        then show ?thesis by (rule apply_after_reverse)
      qed
      with True False show ?thesis
        unfolding ps' by (simp add: a_def)
    next
      case False
      with \<open>t_status (transactions st ! k) \<noteq> Completed\<close> cur show ?thesis
        unfolding ps' by (simp add: a_def Q_def)
    qed
  qed
qed

lemma lifecycle_stock:
  assumes "findIndex (\<lambda>x. t_id x = t_id t) (transactions st) = Some k"
    and "t_items (transactions st ! k) = t_items t"
    and "t_type (transactions st ! k) = t_type t"
    and out: "t_type t = TOut"
    and "\<forall>r\<in>set rs. statusUpdateOf t r"
    and q: "\<forall>item\<in>set (t_items t). 0 \<le> quantity item"
    and i: "i < length ps0" and s0: "0 \<le> p_stock (ps0 ! i)"
    and "map p_id (products st) = map p_id ps0"
    and "if t_status (transactions st ! k) = Completed
      then p_stock (products st ! i) = p_stock (foldl (applyItem TOut now) ps0 (t_items t) ! i)
      else products st = ps0 \<or>
           p_stock (products st ! i)
             = p_stock (foldl (applyItem TOut now) ps0 (t_items t) ! i) + quantityAt ps0 (t_items t) i"
  shows "if last (t_status (transactions st ! k) # map requestStatus rs) = Completed
      then p_stock (products (performUpdates now rs st) ! i)
             = p_stock (foldl (applyItem TOut now) ps0 (t_items t) ! i)
      else products (performUpdates now rs st) = ps0 \<or>
           p_stock (products (performUpdates now rs st) ! i)
             = p_stock (foldl (applyItem TOut now) ps0 (t_items t) ! i) + quantityAt ps0 (t_items t) i"
  using assms(1-3,5,9,10)
proof (induction rs arbitrary: st)
  case Nil
  then show ?case by simp
next
  case (Cons r rs)
  let ?st = "snd (performUpdate now r st)"
  from Cons.prems(4) have r: "statusUpdateOf t r" and rs: "\<forall>r\<in>set rs. statusUpdateOf t r"
    by simp_all
  note step = performUpdate_step [OF Cons.prems(1-3) r, of now]
  note stock = lifecycle_stock_step [OF Cons.prems(1-3) out r q i s0 Cons.prems(5) Cons.prems(6)]
  have lastq: "last (t_status (transactions st ! k) # map requestStatus (r # rs))
      = last (requestStatus r # map requestStatus rs)"
    by simp
  from Cons.IH [OF step(1) step(2) step(3) rs stock(1), unfolded step(4), OF stock(2)]
  show ?case unfolding lastq by simp
qed

text \<open>
  C2. Follow one transaction from \<open>addTransaction\<close>, under an id that no stored
  transaction has, through any sequence of status updates, each made through
  \<open>updateTransactionStatus\<close> or through \<open>updateTransaction\<close> with the same id, type and
  items. Every ledger call made on the way is for the transaction's own type and items in
  status \<open>completed\<close>; the applications outnumber the reversals by exactly one when the
  transaction ends in status \<open>completed\<close> and by none otherwise; and the stored products
  are what running exactly these calls, in order, makes of the initial products. For a
  single \<open>updateTransaction\<close> on a stored transaction: the effect is applied when the
  old status is not \<open>completed\<close> and the new one is, it is reversed when the old status
  is \<open>completed\<close> and the new one is not, and the products are unchanged between two
  statuses other than \<open>completed\<close> (and between \<open>completed\<close> and \<open>completed\<close>).

  In terms of stock, for an \<open>out\<close> transaction with non-negative quantities and a product
  with non-negative stock: whenever the transaction ends in status \<open>completed\<close>, the
  product's stock is what a single application of the decrement to the initial products
  leaves, however many times \<open>completed\<close> was entered and left on the way. When the
  initial stock covers the total quantity asked of the product, that is the initial stock
  less the total quantity, and whenever the transaction ends in another status the stock
  is the initial stock again.
\<close>

theorem stock_effect_once_per_completion:
  "(findIndex (\<lambda>x. t_id x = t_id t) (transactions st) = None \<and>
    (\<forall>r\<in>set rs. statusUpdateOf t r) \<longrightarrow>
      (let st1 = addTransaction now t st;
           final = performUpdates now rs st1;
           calls = addTransactionCalls t @ updatesCalls now rs st1;
           finalStatus = last (t_status t # map requestStatus rs)
       in t_status (transactions final ! length (transactions st)) = finalStatus \<and>
          netApplied calls = (if finalStatus = Completed then 1 else 0) \<and>
          (\<forall>c\<in>set calls. t_items (callTransaction c) = t_items t \<and>
              t_type (callTransaction c) = t_type t \<and> t_status (callTransaction c) = Completed) \<and>
          products final = products (foldl (runLedgerCall now) st calls))) \<and>
   (\<forall>index. findIndex (\<lambda>x. t_id x = t_id upd) (transactions st) = Some index \<longrightarrow>
      (let old = transactions st ! index; st' = snd (updateTransaction now upd st)
       in (t_status old \<noteq> Completed \<and> t_status upd = Completed \<longrightarrow>
             products st' = products (updateStockFromTransaction now upd st)) \<and>
          (t_status old = Completed \<and> t_status upd \<noteq> Completed \<longrightarrow>
             products st' = products (reverseTransactionStockEffects now old st)) \<and>
          (t_status old \<noteq> Completed \<and> t_status upd \<noteq> Completed \<longrightarrow>
             products st' = products st) \<and>
          (t_status old = Completed \<and> t_status upd = Completed \<longrightarrow>
             products st' = products st))) \<and>
   (findIndex (\<lambda>x. t_id x = t_id t) (transactions st) = None \<and>
    (\<forall>r\<in>set rs. statusUpdateOf t r) \<and> t_type t = TOut \<and>
    (\<forall>item\<in>set (t_items t). 0 \<le> quantity item) \<and>
    i < length (products st) \<and> 0 \<le> p_stock (products st ! i) \<longrightarrow>
      (let final = performUpdates now rs (addTransaction now t st);
           finalStatus = last (t_status t # map requestStatus rs);
           once = p_stock (products (updateStockFromTransaction now (t\<lparr>t_status := Completed\<rparr>) st) ! i);
           asked = quantityAt (products st) (t_items t) i
       in (finalStatus = Completed \<longrightarrow> p_stock (products final ! i) = once) \<and>
          (finalStatus \<noteq> Completed \<longrightarrow>
             p_stock (products final ! i) = p_stock (products st ! i) \<or>
             p_stock (products final ! i) = once + asked) \<and>
          (asked \<le> p_stock (products st ! i) \<longrightarrow>
             once = p_stock (products st ! i) - asked \<and>
             (finalStatus = Completed \<longrightarrow>
                p_stock (products final ! i) = p_stock (products st ! i) - asked) \<and>
             (finalStatus \<noteq> Completed \<longrightarrow>
                p_stock (products final ! i) = p_stock (products st ! i)))))"
proof -
  have calls: "findIndex (\<lambda>x. t_id x = t_id t) (transactions st) = None \<and>
    (\<forall>r\<in>set rs. statusUpdateOf t r) \<longrightarrow>
      (let st1 = addTransaction now t st;
           final = performUpdates now rs st1;
           calls = addTransactionCalls t @ updatesCalls now rs st1;
           finalStatus = last (t_status t # map requestStatus rs)
       in t_status (transactions final ! length (transactions st)) = finalStatus \<and>
          netApplied calls = (if finalStatus = Completed then 1 else 0) \<and>
          (\<forall>c\<in>set calls. t_items (callTransaction c) = t_items t \<and>
              t_type (callTransaction c) = t_type t \<and> t_status (callTransaction c) = Completed) \<and>
          products final = products (foldl (runLedgerCall now) st calls))"
  proof (intro impI)
    assume a: "findIndex (\<lambda>x. t_id x = t_id t) (transactions st) = None \<and>
      (\<forall>r\<in>set rs. statusUpdateOf t r)"
    let ?st1 = "addTransaction now t st"
    let ?n = "length (transactions st)"
    from a have fresh: "findIndex (\<lambda>x. t_id x = t_id t) (transactions st) = None"
      and rs: "\<forall>r\<in>set rs. statusUpdateOf t r" by simp_all
    note start = addTransaction_start [OF fresh]
    have items: "t_items (transactions ?st1 ! ?n) = t_items t"
      and type: "t_type (transactions ?st1 ! ?n) = t_type t"
      by (simp_all add: start(2))
    note life = performUpdates_lifecycle [OF start(1) [of now] items type rs, of now, unfolded start(2)]
    have c1: "t_status (transactions (performUpdates now rs ?st1) ! ?n)
        = last (t_status t # map requestStatus rs)"
      using life by simp
    have c2: "netApplied (addTransactionCalls t @ updatesCalls now rs ?st1)
        = (if last (t_status t # map requestStatus rs) = Completed then 1 else 0)"
      using life start(4) by (simp add: netApplied_append)
    have c3: "\<forall>c\<in>set (addTransactionCalls t @ updatesCalls now rs ?st1).
        t_items (callTransaction c) = t_items t \<and>
        t_type (callTransaction c) = t_type t \<and> t_status (callTransaction c) = Completed"
      using life by (auto simp: addTransactionCalls_def split: if_splits)
    have c4: "products (performUpdates now rs ?st1)
        = products (foldl (runLedgerCall now) st (addTransactionCalls t @ updatesCalls now rs ?st1))"
      using life foldl_runLedgerCall_products_cong [OF start(3) [of now], of now "updatesCalls now rs ?st1"]
      by simp
    from c1 c2 c3 c4
    show "let st1 = addTransaction now t st;
             final = performUpdates now rs st1;
             calls = addTransactionCalls t @ updatesCalls now rs st1;
             finalStatus = last (t_status t # map requestStatus rs)
         in t_status (transactions final ! length (transactions st)) = finalStatus \<and>
            netApplied calls = (if finalStatus = Completed then 1 else 0) \<and>
            (\<forall>c\<in>set calls. t_items (callTransaction c) = t_items t \<and>
                t_type (callTransaction c) = t_type t \<and> t_status (callTransaction c) = Completed) \<and>
            products final = products (foldl (runLedgerCall now) st calls)"
      unfolding Let_def by blast
  qed
  have steps: "\<forall>index. findIndex (\<lambda>x. t_id x = t_id upd) (transactions st) = Some index \<longrightarrow>
      (let old = transactions st ! index; st' = snd (updateTransaction now upd st)
       in (t_status old \<noteq> Completed \<and> t_status upd = Completed \<longrightarrow>
             products st' = products (updateStockFromTransaction now upd st)) \<and>
          (t_status old = Completed \<and> t_status upd \<noteq> Completed \<longrightarrow>
             products st' = products (reverseTransactionStockEffects now old st)) \<and>
          (t_status old \<noteq> Completed \<and> t_status upd \<noteq> Completed \<longrightarrow>
             products st' = products st) \<and>
          (t_status old = Completed \<and> t_status upd = Completed \<longrightarrow>
             products st' = products st))"
  proof (intro allI impI)
    fix index
    assume "findIndex (\<lambda>x. t_id x = t_id upd) (transactions st) = Some index"
    from updateTransaction_products [OF this, of now]
    show "let old = transactions st ! index; st' = snd (updateTransaction now upd st)
         in (t_status old \<noteq> Completed \<and> t_status upd = Completed \<longrightarrow>
               products st' = products (updateStockFromTransaction now upd st)) \<and>
            (t_status old = Completed \<and> t_status upd \<noteq> Completed \<longrightarrow>
               products st' = products (reverseTransactionStockEffects now old st)) \<and>
            (t_status old \<noteq> Completed \<and> t_status upd \<noteq> Completed \<longrightarrow>
               products st' = products st) \<and>
            (t_status old = Completed \<and> t_status upd = Completed \<longrightarrow>
               products st' = products st)"
      by (simp add: Let_def)
  qed
  have stock: "findIndex (\<lambda>x. t_id x = t_id t) (transactions st) = None \<and>
    (\<forall>r\<in>set rs. statusUpdateOf t r) \<and> t_type t = TOut \<and>
    (\<forall>item\<in>set (t_items t). 0 \<le> quantity item) \<and>
    i < length (products st) \<and> 0 \<le> p_stock (products st ! i) \<longrightarrow>
      (let final = performUpdates now rs (addTransaction now t st);
           finalStatus = last (t_status t # map requestStatus rs);
           once = p_stock (products (updateStockFromTransaction now (t\<lparr>t_status := Completed\<rparr>) st) ! i);
           asked = quantityAt (products st) (t_items t) i
       in (finalStatus = Completed \<longrightarrow> p_stock (products final ! i) = once) \<and>
          (finalStatus \<noteq> Completed \<longrightarrow>
             p_stock (products final ! i) = p_stock (products st ! i) \<or>
             p_stock (products final ! i) = once + asked) \<and>
          (asked \<le> p_stock (products st ! i) \<longrightarrow>
             once = p_stock (products st ! i) - asked \<and>
             (finalStatus = Completed \<longrightarrow>
                p_stock (products final ! i) = p_stock (products st ! i) - asked) \<and>
             (finalStatus \<noteq> Completed \<longrightarrow>
                p_stock (products final ! i) = p_stock (products st ! i))))"
  proof (intro impI)
    assume a: "findIndex (\<lambda>x. t_id x = t_id t) (transactions st) = None \<and>
      (\<forall>r\<in>set rs. statusUpdateOf t r) \<and> t_type t = TOut \<and>
      (\<forall>item\<in>set (t_items t). 0 \<le> quantity item) \<and>
      i < length (products st) \<and> 0 \<le> p_stock (products st ! i)"
    let ?st1 = "addTransaction now t st"
    let ?n = "length (transactions st)"
    let ?ps0 = "products st"
    let ?once = "p_stock (foldl (applyItem TOut now) ?ps0 (t_items t) ! i)"
    let ?asked = "quantityAt ?ps0 (t_items t) i"
    let ?final = "performUpdates now rs ?st1"
    let ?fs = "last (t_status t # map requestStatus rs)"
    from a have fresh: "findIndex (\<lambda>x. t_id x = t_id t) (transactions st) = None"
      and rs: "\<forall>r\<in>set rs. statusUpdateOf t r" and out: "t_type t = TOut"
      and q: "\<forall>item\<in>set (t_items t). 0 \<le> quantity item"
      and i: "i < length ?ps0" and s0: "0 \<le> p_stock (?ps0 ! i)" by simp_all
    note start = addTransaction_start [OF fresh]
    have items: "t_items (transactions ?st1 ! ?n) = t_items t"
      and type: "t_type (transactions ?st1 ! ?n) = t_type t"
      by (simp_all add: start(2))
    have ps1: "products ?st1 = (if t_status t = Completed
        then foldl (applyItem TOut now) ?ps0 (t_items t) else ?ps0)"
      using out by (simp add: addTransaction_def Let_def updateStockFromTransaction_def)
    have ids: "map p_id (products ?st1) = map p_id ?ps0"
      unfolding ps1 by (simp add: foldl_applyItem_ids)
    have phase: "if t_status (transactions ?st1 ! ?n) = Completed
      then p_stock (products ?st1 ! i) = ?once
      else products ?st1 = ?ps0 \<or> p_stock (products ?st1 ! i) = ?once + ?asked"
      unfolding start(2) ps1 by simp
    note life = lifecycle_stock [OF start(1) [of now] items type out rs q i s0 ids phase,
        unfolded start(2)]
    have once: "p_stock (products (updateStockFromTransaction now (t\<lparr>t_status := Completed\<rparr>) st) ! i)
        = ?once"
      using out by (simp add: updateStockFromTransaction_def)
    have c1: "?fs = Completed \<longrightarrow> p_stock (products ?final ! i) = ?once"
      using life by simp
    have c2: "?fs \<noteq> Completed \<longrightarrow>
        p_stock (products ?final ! i) = p_stock (?ps0 ! i) \<or>
        p_stock (products ?final ! i) = ?once + ?asked"
      using life by auto
    have exact: "?once = p_stock (?ps0 ! i) - ?asked" if enough: "?asked \<le> p_stock (?ps0 ! i)"
    proof -
      from applyClamps_iff_total [OF i q s0, of now] enough
      have "\<not> applyClamps TOut now ?ps0 (t_items t) i" by simp
      with foldl_applyItem_TOut_stock [OF i, of now "t_items t"] show ?thesis by simp
    qed
    have c3: "?asked \<le> p_stock (?ps0 ! i) \<longrightarrow>
        ?once = p_stock (?ps0 ! i) - ?asked \<and>
        (?fs = Completed \<longrightarrow> p_stock (products ?final ! i) = p_stock (?ps0 ! i) - ?asked) \<and>
        (?fs \<noteq> Completed \<longrightarrow> p_stock (products ?final ! i) = p_stock (?ps0 ! i))"
      using c1 c2 exact by auto
    from c1 c2 c3 show "let final = performUpdates now rs (addTransaction now t st);
           finalStatus = last (t_status t # map requestStatus rs);
           once = p_stock (products (updateStockFromTransaction now (t\<lparr>t_status := Completed\<rparr>) st) ! i);
           asked = quantityAt (products st) (t_items t) i
       in (finalStatus = Completed \<longrightarrow> p_stock (products final ! i) = once) \<and>
          (finalStatus \<noteq> Completed \<longrightarrow>
             p_stock (products final ! i) = p_stock (products st ! i) \<or>
             p_stock (products final ! i) = once + asked) \<and>
          (asked \<le> p_stock (products st ! i) \<longrightarrow>
             once = p_stock (products st ! i) - asked \<and>
             (finalStatus = Completed \<longrightarrow>
                p_stock (products final ! i) = p_stock (products st ! i) - asked) \<and>
             (finalStatus \<noteq> Completed \<longrightarrow>
                p_stock (products final ! i) = p_stock (products st ! i)))"
      unfolding Let_def once by blast
  qed
  from calls steps stock show ?thesis by blast
qed

theorem stock_effect_once_per_completion_witness:
  "netApplied (addTransactionCalls ex_small_order
      @ updatesCalls ''d2'' ex_requests (addTransaction ''d2'' ex_small_order (ex_store\<lparr>transactions := []\<rparr>))) = 1 \<and>
   quantityAt (products ex_store) (t_items ex_small_order) 0 = 2 \<and>
   map p_stock (products (performUpdates ''d2'' ex_requests
      (addTransaction ''d2'' ex_small_order (ex_store\<lparr>transactions := []\<rparr>)))) = [3] \<and>
   map p_stock (products (performUpdates ''d2'' (take 3 ex_requests)
      (addTransaction ''d2'' ex_small_order (ex_store\<lparr>transactions := []\<rparr>)))) = [5] \<and>
   map p_stock (products (snd (updateTransaction ''d2'' (ex_order\<lparr>t_status := Cancelled\<rparr>) ex_store))) = [5]"
  using stock_effect_once_per_completion [where t = ex_small_order and st = "ex_store\<lparr>transactions := []\<rparr>"
      and rs = ex_requests and now = "''d2''" and upd = ex_small_order and i = 0]
    stock_effect_once_per_completion [where t = ex_small_order and st = "ex_store\<lparr>transactions := []\<rparr>"
      and rs = "take 3 ex_requests" and now = "''d2''" and upd = ex_small_order and i = 0]
    stock_effect_once_per_completion [where t = ex_order and st = ex_store
      and rs = "[]" and now = "''d2''" and upd = "ex_order\<lparr>t_status := Cancelled\<rparr>" and i = 0]
  by (simp add: ex_requests_def ex_small_order_def ex_store_def ex_order_def ex_product_def itemIndex_def
      addTransaction_def addTransactionCalls_def updateTransactionCalls_def
      updateTransactionStatus_def updateTransaction_def netApplied_def quantityAt_def
      updateStockFromTransaction_def reverseTransactionStockEffects_def
      applyItem_def reverseItem_def Let_def)

end
